theory Spec2Isabelle
  imports Complex_Main "HOL-Library.Sublist" "HOL-Library.Char_ord" "HOL-Library.List_Lexorder"
    "HOL-Library.Product_Lexorder"
begin

section \<open>Python values: errors, strings, ordered dictionaries\<close>

text \<open>
  Every exception the modelled code raises is a value. The message of an
  \<open>InvalidDomain\<close> is kept as structured data (which names it lists), not as
  the formatted text.
\<close>

datatype invalid_domain =
    DuplicateIntent string
  | MalformedTemplate string
  | SanityCheckFailed "string list" "string list" "string list" "(string \<times> string) list"
  | SpecificationChanged "string set" "string set"

datatype py_error =
    NameError string
  | IndexError
  | ValueError
  | KeyError string
  | TypeError
  | InvalidDomain invalid_domain
  | UnsupportedDialogueModelError string string

text \<open>\<open>str(n)\<close> for a non-negative integer: its decimal digits.\<close>

definition digit_char :: "nat \<Rightarrow> char" where
  "digit_char n = ''0123456789'' ! n"

function str_nat :: "nat \<Rightarrow> string" where
  "str_nat n = (if n < 10 then [digit_char n] else str_nat (n div 10) @ [digit_char (n mod 10)])"
  by pat_completeness auto
termination
  by (relation "measure id") auto

declare str_nat.simps [simp del]

text \<open>\<open>s.endswith(suffix)\<close>.\<close>

definition endswith :: "string \<Rightarrow> string \<Rightarrow> bool" where
  "endswith s suf = (length suf \<le> length s \<and> drop (length s - length suf) s = suf)"

text \<open>\<open>xs.index(x)\<close>: the first position of \<open>x\<close>; Python raises ValueError when
  there is none.\<close>

fun list_index :: "'a list \<Rightarrow> 'a \<Rightarrow> nat option" where
  "list_index [] x = None"
| "list_index (y # ys) x = (if y = x then Some 0 else map_option Suc (list_index ys x))"

text \<open>
  A Python dictionary keeps its keys in insertion order. It is an association
  list with distinct keys: \<open>d[k] = v\<close> replaces the value in place when the key is
  there and appends the pair otherwise; \<open>a.update(b)\<close> stores the items of \<open>b\<close>
  one by one.
\<close>

type_synonym ('k, 'v) dict = "('k \<times> 'v) list"

fun dict_set :: "('k, 'v) dict \<Rightarrow> 'k \<Rightarrow> 'v \<Rightarrow> ('k, 'v) dict" where
  "dict_set [] k v = [(k, v)]"
| "dict_set ((k', v') # d) k v = (if k' = k then (k, v) # d else (k', v') # dict_set d k v)"

definition dict_update :: "('k, 'v) dict \<Rightarrow> ('k, 'v) dict \<Rightarrow> ('k, 'v) dict" where
  "dict_update a b = foldl (\<lambda>d (k, v). dict_set d k v) a b"

definition dict_keys :: "('k, 'v) dict \<Rightarrow> 'k list" where
  "dict_keys d = map fst d"

definition dict_values :: "('k, 'v) dict \<Rightarrow> 'v list" where
  "dict_values d = map snd d"

definition dict_get :: "('k, 'v) dict \<Rightarrow> 'k \<Rightarrow> 'v option" where
  "dict_get d k = map_of d k"

section \<open>Constants imported from modules outside the modelled files\<close>

text \<open>
  \<open>ACTION_LISTEN_NAME\<close> and \<open>default_action_names()\<close> (rasa.core.actions.action),
  \<open>DEFAULT_CARRY_OVER_SLOTS_TO_NEW_SESSION\<close> and \<open>MINIMUM_COMPATIBLE_VERSION\<close>
  (rasa.constants) and \<open>rasa.__version__\<close> are parameters of the model.
\<close>

record constants =
  ACTION_LISTEN_NAME :: string
  default_action_names :: "string list"
  DEFAULT_CARRY_OVER_SLOTS_TO_NEW_SESSION :: bool
  MINIMUM_COMPATIBLE_VERSION :: string
  rasa_version :: string

section \<open>The domain (rasa/core/domain.py)\<close>

text \<open>
  The \<open>use_entities\<close> entry of an intent as the domain file can give it: \<open>True\<close>,
  \<open>False\<close>, \<open>None\<close> or a list of entity names. A field that is \<open>None\<close> in the
  record is a key the dictionary does not have.
\<close>

datatype use_entities_cfg = UseTrue | UseFalse | UseNone | UseList "string list"

record intent_config =
  use_entities :: "use_entities_cfg option"
  ignore_entities :: "string list option"
  triggers :: "string option"

text \<open>An entry of the \<open>intents\<close> list: a bare name, or a one-key dictionary
  from the name to its properties.\<close>

datatype intent_decl = IntentName string | IntentDict string intent_config

record slot =
  slot_name :: string
  type_name :: string
  feature_dimensionality :: nat
  auto_fill :: bool

datatype template = TemplateStr string | TemplateDict "(string, string) dict"

record SessionConfig =
  session_expiration_time :: real
  carry_over_slots :: bool

record domain =
  intent_properties :: "(string, intent_config) dict"
  entities :: "string list"
  form_names :: "string list"
  slots :: "slot list"
  templates :: "(string, template list) dict"
  session_config :: SessionConfig
  user_actions :: "string list"
  action_names :: "string list"
  store_entities_as_slots :: bool

definition num_actions :: "domain \<Rightarrow> nat" where
  "num_actions d = length (action_names d)"

text \<open>\<open>index_for_action\<close>: \<open>action_names.index(action_name)\<close>, and a NameError
  where the list raises ValueError.\<close>

definition index_for_action :: "domain \<Rightarrow> string \<Rightarrow> py_error + nat" where
  "index_for_action d action_name =
     (case list_index (action_names d) action_name of
        Some i \<Rightarrow> Inr i
      | None \<Rightarrow> Inl (NameError action_name))"

section \<open>The tracker (an external collaborator: only what the code reads)\<close>

datatype event = ActionExecuted string | ActionExecutionRejected string | OtherEvent

text \<open>
  The latest user message: the name and the confidence of its intent (\<open>None\<close> for a
  key the \<open>intent\<close> dictionary lacks), the \<open>intent_ranking\<close> of its parse data
  when there is one, and its entities. A tracker holds, besides its events, the latest
  action and the latest message, its slots: for each slot name the feature vector
  \<open>slot.as_feature()\<close>, or \<open>None\<close> for a slot that is \<open>None\<close>.
\<close>

record UserUttered =
  intent_name :: "string option"
  intent_confidence :: "real option"
  intent_ranking :: "(string option \<times> real) list option"
  message_entities :: "(string, string) dict list"

record tracker =
  events :: "event list"
  latest_action_name :: "string option"
  latest_message :: "UserUttered option"
  tracker_slots :: "(string, real list option) dict"

section \<open>The policy ensemble (rasa/core/policies/ensemble.py)\<close>

text \<open>
  A probability of a prediction is a Python float. As far as the arbitration can tell
  such a value is a number or NaN: every comparison with NaN, also \<open>==\<close>, answers
  \<open>False\<close>, and \<open>np.max\<close> of a sequence that holds a NaN is NaN. (The infinities
  compare as numbers do and are left out.)
\<close>

datatype pyfloat = Float real | NaN

fun float_gt :: "pyfloat \<Rightarrow> pyfloat \<Rightarrow> bool" where
  "float_gt (Float x) (Float y) = (x > y)"
| "float_gt _ _ = False"

fun float_eq :: "pyfloat \<Rightarrow> pyfloat \<Rightarrow> bool" where
  "float_eq (Float x) (Float y) = (x = y)"
| "float_eq _ _ = False"

text \<open>
  A policy, as the ensemble sees it: its class name (\<open>type(p).__name__\<close>), its
  priority, its prediction, whether it is an instance of \<open>FallbackPolicy\<close>, and
  the fallback action such a policy is configured with.
\<close>

record policy =
  class_name :: string
  priority :: int
  predict_action_probabilities :: "tracker \<Rightarrow> domain \<Rightarrow> pyfloat list"
  is_FallbackPolicy :: bool
  fallback_action_name :: string

record PolicyEnsemble =
  policies :: "policy list"

text \<open>
  Modelled from the spec: \<open>FallbackPolicy.fallback_scores\<close>
  (rasa/core/policies/fallback.py is not among the modelled files). The spec calls it
  the fallback policy's fixed distribution concentrated on the designated fallback
  action: probability 1 at the index of that action, 0 at every other index.
\<close>

definition fallback_scores :: "policy \<Rightarrow> domain \<Rightarrow> py_error + pyfloat list" where
  "fallback_scores p d =
     (case index_for_action d (fallback_action_name p) of
        Inl e \<Rightarrow> Inl e
      | Inr idx \<Rightarrow> Inr ((replicate (num_actions d) (Float 0))[idx := Float 1]))"

text \<open>\<open>"policy_{}_{}".format(i, type(p).__name__)\<close>.\<close>

definition policy_name :: "nat \<Rightarrow> policy \<Rightarrow> string" where
  "policy_name i p = ''policy_'' @ str_nat i @ ''_'' @ class_name p"

definition is_not_memo_policy :: "string \<Rightarrow> bool" where
  "is_not_memo_policy best_policy_name =
     (let is_memo = endswith best_policy_name (''_'' @ ''MemoizationPolicy'');
          is_augmented = endswith best_policy_name (''_'' @ ''AugmentedMemoizationPolicy'')
      in \<not> (is_memo \<or> is_augmented))"

text \<open>\<open>np.max(probabilities)\<close>: numpy raises ValueError on an empty sequence, and
  the maximum of a sequence with a NaN in it is NaN.\<close>

fun np_maximum :: "pyfloat \<Rightarrow> pyfloat \<Rightarrow> pyfloat" where
  "np_maximum (Float x) (Float y) = Float (max x y)"
| "np_maximum _ _ = NaN"

fun np_max :: "pyfloat list \<Rightarrow> py_error + pyfloat" where
  "np_max [] = Inl ValueError"
| "np_max (x # xs) = Inr (fold np_maximum xs x)"

text \<open>
  The first statement of the loop body after the prediction: when the tracker's last
  event is an \<open>ActionExecutionRejected\<close>, the entry at the rejected action's index
  is set to 0. The lookup raises NameError for an unknown action and the assignment
  IndexError beyond the end of the list.
\<close>

definition zero_rejected :: "tracker \<Rightarrow> domain \<Rightarrow> pyfloat list \<Rightarrow> py_error + pyfloat list" where
  "zero_rejected tr d probabilities =
     (if length (events tr) > 0 then
        (case last (events tr) of
           ActionExecutionRejected a \<Rightarrow>
             (case index_for_action d a of
                Inl e \<Rightarrow> Inl e
              | Inr idx \<Rightarrow>
                  if idx < length probabilities then Inr (probabilities[idx := Float 0])
                  else Inl IndexError)
         | _ \<Rightarrow> Inr probabilities)
      else Inr probabilities)"

text \<open>
  Python's comparison of pairs, \<open>(a, b) > (c, d)\<close>: the first components are
  compared with \<open>==\<close>; when they are equal the second components decide, otherwise
  the answer is \<open>a > c\<close>. (The confidence is a fresh object of \<open>np.max\<close>, so the
  shortcut Python takes for identical objects does not apply.)
\<close>

definition tuple_gt :: "pyfloat \<times> int \<Rightarrow> pyfloat \<times> int \<Rightarrow> bool" where
  "tuple_gt x y = (if float_eq (fst x) (fst y) then snd x > snd y else float_gt (fst x) (fst y))"

text \<open>The running best of the loop: \<open>result\<close>, \<open>max_confidence\<close>,
  \<open>best_policy_name\<close>, \<open>best_policy_priority\<close>.\<close>

record best =
  result :: "pyfloat list option"
  max_confidence :: pyfloat
  best_policy_name :: "string option"
  best_policy_priority :: int

definition initial_best :: best where
  "initial_best = \<lparr> result = None, max_confidence = Float (-1), best_policy_name = None,
                     best_policy_priority = -1 \<rparr>"

text \<open>What one policy contributes: its distribution after the zeroing, and the
  maximum of it.\<close>

definition scored :: "tracker \<Rightarrow> domain \<Rightarrow> policy \<Rightarrow> py_error + (pyfloat list \<times> pyfloat)" where
  "scored tr d p =
     (case zero_rejected tr d (predict_action_probabilities p tr d) of
        Inl e \<Rightarrow> Inl e
      | Inr probabilities \<Rightarrow>
          (case np_max probabilities of
             Inl e \<Rightarrow> Inl e
           | Inr confidence \<Rightarrow> Inr (probabilities, confidence)))"

text \<open>The loop \<open>for i, p in enumerate(self.policies)\<close>.\<close>

fun best_policy_loop :: "tracker \<Rightarrow> domain \<Rightarrow> (nat \<times> policy) list \<Rightarrow> best \<Rightarrow> py_error + best" where
  "best_policy_loop tr d [] b = Inr b"
| "best_policy_loop tr d ((i, p) # ps) b =
     (case scored tr d p of
        Inl e \<Rightarrow> Inl e
      | Inr (probabilities, confidence) \<Rightarrow>
          if tuple_gt (confidence, priority p) (max_confidence b, best_policy_priority b)
          then best_policy_loop tr d ps
                 \<lparr> result = Some probabilities, max_confidence = confidence,
                   best_policy_name = Some (policy_name i p),
                   best_policy_priority = priority p \<rparr>
          else best_policy_loop tr d ps b)"

text \<open>\<open>result.index(max_confidence)\<close>: the first position whose entry is \<open>==\<close>
  to the value.\<close>

fun float_index :: "pyfloat list \<Rightarrow> pyfloat \<Rightarrow> nat option" where
  "float_index [] x = None"
| "float_index (y # ys) x = (if float_eq y x then Some 0 else map_option Suc (float_index ys x))"

text \<open>The condition of the override, evaluated left to right as Python's \<open>and\<close>
  does; \<open>result.index\<close> raises ValueError and \<open>index_for_action\<close> NameError.\<close>

definition override_condition :: "constants \<Rightarrow> tracker \<Rightarrow> domain \<Rightarrow> best \<Rightarrow> py_error + bool" where
  "override_condition K tr d b =
     (case result b of
        None \<Rightarrow> Inr False
      | Some r \<Rightarrow>
          (case float_index r (max_confidence b) of
             None \<Rightarrow> Inl ValueError
           | Some i \<Rightarrow>
               (case index_for_action d (ACTION_LISTEN_NAME K) of
                  Inl e \<Rightarrow> Inl e
                | Inr l \<Rightarrow>
                    Inr (i = l \<and> latest_action_name tr = Some (ACTION_LISTEN_NAME K)
                         \<and> (case best_policy_name b of
                               Some n \<Rightarrow> is_not_memo_policy n
                             | None \<Rightarrow> False)))))"

definition fallback_idx_policy :: "PolicyEnsemble \<Rightarrow> (nat \<times> policy) list" where
  "fallback_idx_policy ens = filter (\<lambda>(i, p). is_FallbackPolicy p) (enumerate 0 (policies ens))"

definition probabilities_using_best_policy ::
  "constants \<Rightarrow> PolicyEnsemble \<Rightarrow> tracker \<Rightarrow> domain \<Rightarrow> py_error + (pyfloat list option \<times> string option)" where
  "probabilities_using_best_policy K ens tr d =
     (case best_policy_loop tr d (enumerate 0 (policies ens)) initial_best of
        Inl e \<Rightarrow> Inl e
      | Inr b \<Rightarrow>
          (case override_condition K tr d b of
             Inl e \<Rightarrow> Inl e
           | Inr False \<Rightarrow> Inr (result b, best_policy_name b)
           | Inr True \<Rightarrow>
               (case fallback_idx_policy ens of
                  [] \<Rightarrow> Inr (result b, best_policy_name b)
                | (fallback_idx, fallback_policy) # _ \<Rightarrow>
                    (case fallback_scores fallback_policy d of
                       Inl e \<Rightarrow> Inl e
                     | Inr scores \<Rightarrow>
                         Inr (Some scores, Some (policy_name fallback_idx fallback_policy))))))"

subsection \<open>The specification of the arbitration\<close>

text \<open>
  The key of a policy is the pair of the maximum of its (zeroed) distribution and
  its priority. A key whose maximum is NaN is neither above nor below another key.

  \<open>first_maximal\<close> says that the policy at index \<open>k\<close> has a key with a number as
  its maximum, and that every policy whose key has a number as its maximum has a
  smaller maximum, or the same maximum and a smaller priority, or the same maximum and
  the same priority and an index that is not before \<open>k\<close>. \<open>chosen\<close> says that the
  running best holds what policy \<open>p\<close> at index \<open>i\<close> contributed.

  \<open>key_above c q c' q'\<close> says that the key \<open>(c, q)\<close> is greater than the key
  \<open>(c', q')\<close> in the lexicographic order, and \<open>winner_from\<close> relates the running
  best before and after a part of the loop.
\<close>

definition policy_key :: "tracker \<Rightarrow> domain \<Rightarrow> policy \<Rightarrow> py_error + (pyfloat \<times> int)" where
  "policy_key tr d p =
     (case scored tr d p of Inl e \<Rightarrow> Inl e | Inr (probabilities, confidence) \<Rightarrow> Inr (confidence, priority p))"

definition key_above :: "real \<Rightarrow> int \<Rightarrow> real \<Rightarrow> int \<Rightarrow> bool" where
  "key_above c q c' q' = (c' < c \<or> (c' = c \<and> q' < q))"

definition chosen :: "tracker \<Rightarrow> domain \<Rightarrow> nat \<Rightarrow> policy \<Rightarrow> best \<Rightarrow> bool" where
  "chosen tr d i p b =
     (\<exists>probabilities confidence.
        scored tr d p = Inr (probabilities, confidence) \<and>
        b = \<lparr> result = Some probabilities, max_confidence = confidence,
              best_policy_name = Some (policy_name i p), best_policy_priority = priority p \<rparr>)"

definition first_maximal :: "tracker \<Rightarrow> domain \<Rightarrow> policy list \<Rightarrow> nat \<Rightarrow> bool" where
  "first_maximal tr d ps k =
     (k < length ps \<and>
      (\<exists>c. policy_key tr d (ps ! k) = Inr (Float c, priority (ps ! k)) \<and>
         (\<forall>j < length ps. \<forall>cj. policy_key tr d (ps ! j) = Inr (Float cj, priority (ps ! j)) \<longrightarrow>
              cj < c
              \<or> (cj = c \<and> priority (ps ! j) < priority (ps ! k))
              \<or> (cj = c \<and> priority (ps ! j) = priority (ps ! k) \<and> k \<le> j))))"

definition winner_from :: "tracker \<Rightarrow> domain \<Rightarrow> nat \<Rightarrow> policy list \<Rightarrow> best \<Rightarrow> best \<Rightarrow> bool" where
  "winner_from tr d n ps b b' =
     (\<exists>cb. max_confidence b = Float cb \<and>
        ((b' = b \<and>
          (\<forall>j < length ps. \<forall>cj. policy_key tr d (ps ! j) = Inr (Float cj, priority (ps ! j)) \<longrightarrow>
               \<not> key_above cj (priority (ps ! j)) cb (best_policy_priority b)))
         \<or> (\<exists>k c. first_maximal tr d ps k \<and> chosen tr d (n + k) (ps ! k) b' \<and>
                  max_confidence b' = Float c \<and>
                  key_above c (best_policy_priority b') cb (best_policy_priority b))))"

text \<open>
  \<open>override_fires\<close>: the call reaches the branch that replaces the result by the
  fallback distribution. \<open>respects_contract\<close>: what the ensemble expects of its
  collaborators in a call, namely at least one policy, from each policy a prediction
  with one entry for every action of the domain and no NaN among the entries, and the
  listen action and the fallback actions among the actions of the domain.
\<close>

definition override_fires :: "constants \<Rightarrow> PolicyEnsemble \<Rightarrow> tracker \<Rightarrow> domain \<Rightarrow> bool" where
  "override_fires K ens tr d =
     (\<exists>b. best_policy_loop tr d (enumerate 0 (policies ens)) initial_best = Inr b \<and>
          override_condition K tr d b = Inr True \<and> fallback_idx_policy ens \<noteq> [])"

definition respects_contract :: "constants \<Rightarrow> PolicyEnsemble \<Rightarrow> tracker \<Rightarrow> domain \<Rightarrow> bool" where
  "respects_contract K ens tr d =
     (policies ens \<noteq> [] \<and> ACTION_LISTEN_NAME K \<in> set (action_names d) \<and>
      (\<forall>p \<in> set (policies ens).
          length (predict_action_probabilities p tr d) = num_actions d \<and>
          NaN \<notin> set (predict_action_probabilities p tr d) \<and>
          (is_FallbackPolicy p \<longrightarrow> fallback_action_name p \<in> set (action_names d))))"

subsection \<open>An example configuration\<close>

definition example_constants :: constants where
  "example_constants =
     \<lparr> ACTION_LISTEN_NAME = ''action_listen'',
       default_action_names = [''action_listen'', ''action_restart'', ''action_default_fallback''],
       DEFAULT_CARRY_OVER_SLOTS_TO_NEW_SESSION = True,
       MINIMUM_COMPATIBLE_VERSION = ''1.9.0'',
       rasa_version = ''1.9.5'' \<rparr>"

definition example_domain :: domain where
  "example_domain =
     \<lparr> intent_properties =
         [(''greet'', \<lparr> use_entities = Some UseTrue, ignore_entities = Some [], triggers = None \<rparr>)],
       entities = [],
       form_names = [],
       slots = [],
       templates = [(''utter_greet'', [TemplateDict [(''text'', ''hello'')]])],
       session_config = \<lparr> session_expiration_time = 0, carry_over_slots = True \<rparr>,
       user_actions = [''action_custom_fallback'', ''utter_greet''],
       action_names = [''action_listen'', ''action_restart'', ''action_default_fallback'',
                       ''action_custom_fallback'', ''utter_greet''],
       store_entities_as_slots = True \<rparr>"

definition example_keras :: policy where
  "example_keras =
     \<lparr> class_name = ''KerasPolicy'', priority = 1,
       predict_action_probabilities = (\<lambda>tr d. map Float [0.8, 0.05, 0, 0.1, 0.05]),
       is_FallbackPolicy = False, fallback_action_name = [] \<rparr>"

definition example_sklearn :: policy where
  "example_sklearn =
     \<lparr> class_name = ''SklearnPolicy'', priority = 1,
       predict_action_probabilities = (\<lambda>tr d. map Float [0.1, 0, 0, 0.1, 0.8]),
       is_FallbackPolicy = False, fallback_action_name = [] \<rparr>"

definition example_fallback :: policy where
  "example_fallback =
     \<lparr> class_name = ''FallbackPolicy'', priority = 4,
       predict_action_probabilities = (\<lambda>tr d. map Float [0, 0, 0, 0.3, 0]),
       is_FallbackPolicy = True, fallback_action_name = ''action_custom_fallback'' \<rparr>"

text \<open>Three policies whose predictions have the maximum 1: a memoization policy, and
  two policies of a higher priority.\<close>

definition example_memo :: policy where
  "example_memo =
     \<lparr> class_name = ''MemoizationPolicy'', priority = 3,
       predict_action_probabilities = (\<lambda>tr d. map Float [0, 0, 0, 0, 1]),
       is_FallbackPolicy = False, fallback_action_name = [] \<rparr>"

definition example_form :: policy where
  "example_form =
     \<lparr> class_name = ''FormPolicy'', priority = 5,
       predict_action_probabilities = (\<lambda>tr d. map Float [0, 1, 0, 0, 0]),
       is_FallbackPolicy = False, fallback_action_name = [] \<rparr>"

definition example_custom :: policy where
  "example_custom =
     \<lparr> class_name = ''CustomPolicy'', priority = 5,
       predict_action_probabilities = (\<lambda>tr d. map Float [0, 0, 0, 1, 0]),
       is_FallbackPolicy = False, fallback_action_name = [] \<rparr>"

text \<open>A fallback policy whose fallback action is the listen action, predicting that
  action, and a policy whose prediction holds a NaN.\<close>

definition example_listen_fallback :: policy where
  "example_listen_fallback =
     \<lparr> class_name = ''FallbackPolicy'', priority = 4,
       predict_action_probabilities = (\<lambda>tr d. map Float [1, 0, 0, 0, 0]),
       is_FallbackPolicy = True, fallback_action_name = ''action_listen'' \<rparr>"

definition example_nan :: policy where
  "example_nan =
     \<lparr> class_name = ''KerasPolicy'', priority = 1,
       predict_action_probabilities = (\<lambda>tr d. [Float 0.5, NaN, Float 0, Float 0.1, Float 0]),
       is_FallbackPolicy = False, fallback_action_name = [] \<rparr>"

definition example_rejected_tracker :: tracker where
  "example_rejected_tracker =
     \<lparr> events = [ActionExecuted ''action_listen'', OtherEvent,
                 ActionExecutionRejected ''action_custom_fallback''],
       latest_action_name = Some ''action_listen'',
       latest_message = Some \<lparr> intent_name = Some ''greet'', intent_confidence = Some 0.9,
                                intent_ranking = None, message_entities = [] \<rparr>,
       tracker_slots = [] \<rparr>"

definition example_listening_tracker :: tracker where
  "example_listening_tracker =
     \<lparr> events = [ActionExecuted ''action_listen'', ActionExecuted ''action_listen'', OtherEvent],
       latest_action_name = Some ''action_listen'',
       latest_message = Some \<lparr> intent_name = Some ''greet'', intent_confidence = Some 0.9,
                                intent_ranking = None, message_entities = [] \<rparr>,
       tracker_slots = [] \<rparr>"

section \<open>The domain: construction, state schema, featurized entities, merge\<close>

subsection \<open>Construction (\<open>Domain.__init__\<close>)\<close>

text \<open>
  \<open>collect_intent_properties\<close>: a bare name gets the default properties; the
  properties of a dictionary entry get their defaults (\<open>setdefault\<close>), and a
  \<open>use_entities\<close> that is \<open>None\<close> or \<open>False\<close> becomes the empty list. A name
  that is already a key raises InvalidDomain.
\<close>

definition normalise_properties :: "intent_config \<Rightarrow> intent_config" where
  "normalise_properties properties =
     properties
       \<lparr> use_entities :=
           (case use_entities properties of
              None \<Rightarrow> Some UseTrue
            | Some UseNone \<Rightarrow> Some (UseList [])
            | Some UseFalse \<Rightarrow> Some (UseList [])
            | Some u \<Rightarrow> Some u),
         ignore_entities :=
           (case ignore_entities properties of None \<Rightarrow> Some [] | Some l \<Rightarrow> Some l) \<rparr>"

fun intent_entry :: "intent_decl \<Rightarrow> string \<times> intent_config" where
  "intent_entry (IntentName name) =
     (name, \<lparr> use_entities = Some UseTrue, ignore_entities = Some [], triggers = None \<rparr>)"
| "intent_entry (IntentDict name properties) = (name, normalise_properties properties)"

fun collect_intent_properties_loop ::
  "intent_decl list \<Rightarrow> (string, intent_config) dict \<Rightarrow> py_error + (string, intent_config) dict" where
  "collect_intent_properties_loop [] props = Inr props"
| "collect_intent_properties_loop (intent # intents) props =
     (case intent_entry intent of
        (name, properties) \<Rightarrow>
          if name \<in> set (dict_keys props)
          then Inl (InvalidDomain (DuplicateIntent name))
          else collect_intent_properties_loop intents (dict_set props name properties))"

definition collect_intent_properties ::
  "intent_decl list \<Rightarrow> py_error + (string, intent_config) dict" where
  "collect_intent_properties intents = collect_intent_properties_loop intents []"

text \<open>
  Modelled from the spec: \<open>combine_with_templates\<close> and
  \<open>combine_user_with_default_actions\<close> (rasa/core/actions/action.py is not among the
  modelled files). The spec gives \<open>action_names\<close> as the user-defined actions, the
  form names and the fixed default actions, in a stable order, and the code's comments
  say that \<open>user_actions\<close> holds the custom and the utterance actions only: the
  user's actions are followed by the names of the templates not already among them, in
  the order of the dictionary, and the default actions come first, before the user's
  actions that are not default actions.
\<close>

definition combine_with_templates :: "string list \<Rightarrow> (string, 'v) dict \<Rightarrow> string list" where
  "combine_with_templates actions templates' =
     actions @ filter (\<lambda>a. a \<notin> set actions) (dict_keys templates')"

definition combine_user_with_default_actions :: "constants \<Rightarrow> string list \<Rightarrow> string list" where
  "combine_user_with_default_actions K user_actions' =
     default_action_names K @ filter (\<lambda>a. a \<notin> set (default_action_names K)) user_actions'"

text \<open>\<open>get_duplicates\<close>: the items that \<open>collections.Counter\<close> counts more than
  once, in the order of their first occurrence.\<close>

fun first_occurrences :: "'a list \<Rightarrow> 'a list" where
  "first_occurrences [] = []"
| "first_occurrences (x # xs) = x # filter (\<lambda>y. y \<noteq> x) (first_occurrences xs)"

definition get_duplicates :: "'a list \<Rightarrow> 'a list" where
  "get_duplicates my_items = filter (\<lambda>item. count_list my_items item > 1) (first_occurrences my_items)"

definition check_mappings :: "domain \<Rightarrow> (string \<times> string) list" where
  "check_mappings d =
     concat (map (\<lambda>(intent, properties).
        (case triggers properties of
           None \<Rightarrow> []
         | Some triggered_action \<Rightarrow>
             if triggered_action \<notin> set (action_names d) then [(intent, triggered_action)] else []))
      (intent_properties d))"

definition check_domain_sanity :: "domain \<Rightarrow> py_error + unit" where
  "check_domain_sanity d =
     (let duplicate_actions = get_duplicates (action_names d);
          duplicate_slots = get_duplicates (map slot_name (slots d));
          duplicate_entities = get_duplicates (entities d);
          incorrect_mappings = check_mappings d
      in if duplicate_actions \<noteq> [] \<or> duplicate_slots \<noteq> [] \<or> duplicate_entities \<noteq> []
            \<or> incorrect_mappings \<noteq> []
         then Inl (InvalidDomain (SanityCheckFailed duplicate_actions duplicate_slots
                     duplicate_entities incorrect_mappings))
         else Inr ())"

definition Domain_init ::
  "constants \<Rightarrow> intent_decl list \<Rightarrow> string list \<Rightarrow> slot list \<Rightarrow> (string, template list) dict \<Rightarrow>
   string list \<Rightarrow> string list \<Rightarrow> bool \<Rightarrow> SessionConfig \<Rightarrow> py_error + domain" where
  "Domain_init K intents entities' slots' templates' action_names' form_names'
       store_entities_as_slots' session_config' =
     (case collect_intent_properties intents of
        Inl e \<Rightarrow> Inl e
      | Inr props \<Rightarrow>
          (let user_actions' = combine_with_templates action_names' templates';
               d = \<lparr> intent_properties = props, entities = entities', form_names = form_names',
                     slots = slots', templates = templates', session_config = session_config',
                     user_actions = user_actions',
                     action_names = combine_user_with_default_actions K user_actions' @ form_names',
                     store_entities_as_slots = store_entities_as_slots' \<rparr>
           in case check_domain_sanity d of Inl e \<Rightarrow> Inl e | Inr _ \<Rightarrow> Inr d))"

subsection \<open>The state schema\<close>

definition PREV_PREFIX :: string where
  "PREV_PREFIX = ''prev_''"

definition intents_of :: "domain \<Rightarrow> string list" where
  "intents_of d = sort (dict_keys (intent_properties d))"

definition intent_states :: "domain \<Rightarrow> string list" where
  "intent_states d = map (\<lambda>i. ''intent_'' @ i) (intents_of d)"

definition entity_states :: "domain \<Rightarrow> string list" where
  "entity_states d = map (\<lambda>e. ''entity_'' @ e) (entities d)"

definition slot_states :: "domain \<Rightarrow> string list" where
  "slot_states d =
     concat (map (\<lambda>s. map (\<lambda>i. ''slot_'' @ slot_name s @ ''_'' @ str_nat i)
                          [0 ..< feature_dimensionality s]) (slots d))"

definition prev_action_states :: "domain \<Rightarrow> string list" where
  "prev_action_states d = map (\<lambda>a. PREV_PREFIX @ a) (action_names d)"

definition form_states :: "domain \<Rightarrow> string list" where
  "form_states d = map (\<lambda>f. ''active_form_'' @ f) (form_names d)"

definition input_states :: "domain \<Rightarrow> string list" where
  "input_states d =
     intent_states d @ entity_states d @ slot_states d @ prev_action_states d @ form_states d"

definition num_states :: "domain \<Rightarrow> nat" where
  "num_states d = length (input_states d)"

text \<open>\<open>{f: i for i, f in enumerate(self.input_states)}\<close>: the items are stored one
  by one, a later index replacing an earlier one for the same name.\<close>

definition input_state_map :: "domain \<Rightarrow> (string, nat) dict" where
  "input_state_map d = foldl (\<lambda>m (i, f). dict_set m f i) [] (enumerate 0 (input_states d))"

definition index_of_state :: "domain \<Rightarrow> string \<Rightarrow> nat option" where
  "index_of_state d state_name = dict_get (input_state_map d) state_name"

text \<open>
  \<open>compare_with_specification\<close>. Its argument here is the specification that
  \<open>load_specification(path)\<close> read from \<open>domain.json\<close>: a dictionary with the key
  \<open>states\<close>. The error carries the two sets the message lists: the states removed
  (in the specification, not in the domain) and the states added (in the domain, not in
  the specification).
\<close>

definition compare_with_specification :: "domain \<Rightarrow> (string, string list) dict \<Rightarrow> py_error + bool" where
  "compare_with_specification d loaded_domain_spec =
     (case dict_get loaded_domain_spec ''states'' of
        None \<Rightarrow> Inl (KeyError ''states'')
      | Some states \<Rightarrow>
          if set states \<noteq> set (input_states d)
          then (let missing = set states - set (input_states d);
                    additional = set (input_states d) - set states
                in Inl (InvalidDomain (SpecificationChanged missing additional)))
          else Inr True)"

subsection \<open>Featurized entities\<close>

datatype warning = AmbiguousEntities "string set" "string option"

text \<open>\<open>intent_config\<close>: \<open>self.intent_properties.get(intent_name, {})\<close>; the empty
  dictionary is the record without any key.\<close>

definition empty_config :: intent_config where
  "empty_config = \<lparr> use_entities = None, ignore_entities = None, triggers = None \<rparr>"

definition intent_config_of :: "domain \<Rightarrow> string option \<Rightarrow> intent_config" where
  "intent_config_of d intent_name' =
     (case intent_name' of
        None \<Rightarrow> empty_config
      | Some n \<Rightarrow> (case dict_get (intent_properties d) n of None \<Rightarrow> empty_config | Some c \<Rightarrow> c))"

text \<open>
  \<open>_get_featurized_entities\<close> returns the warnings it raised with its result.
  \<open>set(include)\<close> raises TypeError when \<open>include\<close> is \<open>None\<close> or \<open>False\<close>
  (which \<open>collect_intent_properties\<close> never leaves in a domain).
\<close>

definition get_featurized_entities :: "domain \<Rightarrow> UserUttered \<Rightarrow> py_error + (warning list \<times> string set)" where
  "get_featurized_entities d latest_message' =
     (let intent_name' = intent_name latest_message';
          intent_config' = intent_config_of d intent_name';
          entity_names = set (List.map_filter (\<lambda>entity. dict_get entity ''entity'')
                                (message_entities latest_message'));
          include = (case use_entities intent_config' of None \<Rightarrow> UseTrue | Some u \<Rightarrow> u)
      in case (case include of
                 UseTrue \<Rightarrow> Inr entity_names
               | UseList l \<Rightarrow> Inr (set l)
               | _ \<Rightarrow> Inl TypeError) of
           Inl e \<Rightarrow> Inl e
         | Inr included_entities \<Rightarrow>
             (let excluded_entities =
                    set (case ignore_entities intent_config' of None \<Rightarrow> [] | Some l \<Rightarrow> l);
                  wanted_entities = included_entities - excluded_entities;
                  explicitly_included = (case include of UseList _ \<Rightarrow> True | _ \<Rightarrow> False);
                  ambiguous_entities = included_entities \<inter> excluded_entities
              in Inr (if explicitly_included \<and> ambiguous_entities \<noteq> {}
                      then [AmbiguousEntities ambiguous_entities intent_name'] else [],
                      entity_names \<inter> wanted_entities)))"

text \<open>
  \<open>get_parsing_states\<close>. The state dictionary is a map: the entity states are stored
  in the iteration order of a set, which Python leaves open. A name or an intent name
  counts as given when it is neither \<open>None\<close> nor empty.
\<close>

definition truthy :: "string option \<Rightarrow> bool" where
  "truthy s = (case s of None \<Rightarrow> False | Some n \<Rightarrow> n \<noteq> [])"

definition entity_states_of :: "string set \<Rightarrow> (string \<rightharpoonup> real)" where
  "entity_states_of featurized =
     (\<lambda>key. if key \<in> (\<lambda>entity_name. ''entity_'' @ entity_name) ` featurized then Some 1 else None)"

definition slot_features :: "string \<Rightarrow> real list \<Rightarrow> (string \<rightharpoonup> real) \<Rightarrow> (string \<rightharpoonup> real)" where
  "slot_features key features state_dict =
     fold (\<lambda>(i, slot_value) st.
             if slot_value \<noteq> 0 then st(''slot_'' @ key @ ''_'' @ str_nat i \<mapsto> slot_value) else st)
       (enumerate 0 features) state_dict"

definition slot_states_of :: "(string, real list option) dict \<Rightarrow> (string \<rightharpoonup> real) \<Rightarrow> (string \<rightharpoonup> real)" where
  "slot_states_of slots' state_dict =
     fold (\<lambda>(key, slot') st. case slot' of None \<Rightarrow> st | Some features \<Rightarrow> slot_features key features st)
       slots' state_dict"

definition intent_states_of :: "UserUttered \<Rightarrow> (string \<rightharpoonup> real) \<Rightarrow> (string \<rightharpoonup> real)" where
  "intent_states_of latest_message' state_dict =
     (case intent_ranking latest_message' of
        Some ranking \<Rightarrow>
          fold (\<lambda>(name, confidence) st.
                  if truthy name then st(''intent_'' @ the name \<mapsto> confidence) else st)
            ranking state_dict
      | None \<Rightarrow>
          if truthy (intent_name latest_message')
          then state_dict(''intent_'' @ the (intent_name latest_message') \<mapsto>
                 (case intent_confidence latest_message' of None \<Rightarrow> 1 | Some c \<Rightarrow> c))
          else state_dict)"

definition get_parsing_states :: "domain \<Rightarrow> tracker \<Rightarrow> py_error + (warning list \<times> (string \<rightharpoonup> real))" where
  "get_parsing_states d tr =
     (case latest_message tr of
        None \<Rightarrow> Inr ([], Map.empty)
      | Some latest_message' \<Rightarrow>
          (case (if truthy (intent_name latest_message')
                 then get_featurized_entities d latest_message'
                 else Inr ([], {})) of
             Inl e \<Rightarrow> Inl e
           | Inr (warnings, featurized) \<Rightarrow>
               Inr (warnings,
                    intent_states_of latest_message'
                      (slot_states_of (tracker_slots tr) (entity_states_of featurized)))))"

text \<open>
  The constructor together with the warnings it raises. Neither \<open>Domain.__init__\<close>
  nor \<open>collect_intent_properties\<close> nor \<open>_check_domain_sanity\<close> calls
  \<open>raise_warning\<close>; the warning about entities that are included and excluded is
  raised in \<open>_get_featurized_entities\<close> only. The list of warnings of a construction
  is empty, whatever the arguments.
\<close>

definition Domain_init_logged ::
  "constants \<Rightarrow> intent_decl list \<Rightarrow> string list \<Rightarrow> slot list \<Rightarrow> (string, template list) dict \<Rightarrow>
   string list \<Rightarrow> string list \<Rightarrow> bool \<Rightarrow> SessionConfig \<Rightarrow> warning list \<times> (py_error + domain)" where
  "Domain_init_logged K intents entities' slots' templates' action_names' form_names'
       store_entities_as_slots' session_config' =
     ([], Domain_init K intents entities' slots' templates' action_names' form_names'
            store_entities_as_slots' session_config')"

subsection \<open>Merging two domains\<close>

text \<open>
  \<open>as_dict\<close>, as a record of its keys. The slot definitions map the name of a slot
  to the slot (its \<open>persistence_info\<close>); \<open>collect_slots\<close> builds the slots again,
  sorted by name.
\<close>

record domain_dict =
  config_store_entities_as_slots :: bool
  session_config_key :: SessionConfig
  intents_key :: "intent_decl list"
  entities_key :: "string list"
  slots_key :: "(string, slot) dict"
  responses_key :: "(string, template list) dict"
  actions_key :: "string list"
  forms_key :: "string list"

definition slot_definitions :: "domain \<Rightarrow> (string, slot) dict" where
  "slot_definitions d = foldl (\<lambda>m s. dict_set m (slot_name s) s) [] (slots d)"

definition as_dict :: "domain \<Rightarrow> domain_dict" where
  "as_dict d =
     \<lparr> config_store_entities_as_slots = store_entities_as_slots d,
       session_config_key = session_config d,
       intents_key = map (\<lambda>(k, v). IntentDict k v) (intent_properties d),
       entities_key = entities d,
       slots_key = slot_definitions d,
       responses_key = templates d,
       actions_key = user_actions d,
       forms_key = form_names d \<rparr>"

definition collect_slots :: "(string, slot) dict \<Rightarrow> slot list" where
  "collect_slots slot_dict =
     List.map_filter (\<lambda>name. map_option (\<lambda>s. s \<lparr> slot_name := name \<rparr>) (dict_get slot_dict name))
       (sort (dict_keys slot_dict))"

text \<open>\<open>collect_templates\<close>, on templates a domain already holds: a string becomes
  a dictionary with the key \<open>text\<close>, a dictionary without \<open>text\<close> and
  \<open>custom\<close> raises InvalidDomain.\<close>

fun validate_variations :: "string \<Rightarrow> template list \<Rightarrow> py_error + template list" where
  "validate_variations template_key [] = Inr []"
| "validate_variations template_key (TemplateStr t # ts) =
     (case validate_variations template_key ts of
        Inl e \<Rightarrow> Inl e
      | Inr vs \<Rightarrow> Inr (TemplateDict [(''text'', t)] # vs))"
| "validate_variations template_key (TemplateDict t # ts) =
     (if ''text'' \<notin> set (dict_keys t) \<and> ''custom'' \<notin> set (dict_keys t)
      then Inl (InvalidDomain (MalformedTemplate template_key))
      else (case validate_variations template_key ts of
              Inl e \<Rightarrow> Inl e
            | Inr vs \<Rightarrow> Inr (TemplateDict t # vs)))"

fun collect_templates_loop ::
  "(string, template list) dict \<Rightarrow> (string, template list) dict \<Rightarrow> py_error + (string, template list) dict" where
  "collect_templates_loop [] acc = Inr acc"
| "collect_templates_loop ((template_key, template_variations) # rest) acc =
     (case validate_variations template_key template_variations of
        Inl e \<Rightarrow> Inl e
      | Inr validated \<Rightarrow> collect_templates_loop rest (dict_set acc template_key validated))"

definition collect_templates :: "(string, template list) dict \<Rightarrow> py_error + (string, template list) dict" where
  "collect_templates yml_templates = collect_templates_loop yml_templates []"

definition from_dict :: "constants \<Rightarrow> domain_dict \<Rightarrow> py_error + domain" where
  "from_dict K data =
     (case collect_templates (responses_key data) of
        Inl e \<Rightarrow> Inl e
      | Inr utter_templates \<Rightarrow>
          Domain_init K (intents_key data) (entities_key data) (collect_slots (slots_key data))
            utter_templates (actions_key data) (forms_key data)
            (config_store_entities_as_slots data) (session_config_key data))"

definition merge_dicts :: "('k, 'v) dict \<Rightarrow> ('k, 'v) dict \<Rightarrow> bool \<Rightarrow> ('k, 'v) dict" where
  "merge_dicts d1 d2 override_existing_values =
     (if override_existing_values then dict_update d1 d2 else dict_update d2 d1)"

definition merge_lists :: "string list \<Rightarrow> string list \<Rightarrow> string list" where
  "merge_lists l1 l2 = sort (remdups (l1 @ l2))"

text \<open>\<open>for form in combined["forms"]: if form in domain_dict["actions"]:
  domain_dict["actions"].remove(form)\<close>; \<open>remove\<close> takes out the first occurrence.\<close>

definition remove_forms :: "string list \<Rightarrow> string list \<Rightarrow> string list" where
  "remove_forms forms actions = foldl (\<lambda>acts form. remove1 form acts) actions forms"

definition default_session_config :: "constants \<Rightarrow> SessionConfig" where
  "default_session_config K =
     \<lparr> session_expiration_time = 0,
       carry_over_slots = DEFAULT_CARRY_OVER_SLOTS_TO_NEW_SESSION K \<rparr>"

fun intent_key :: "intent_decl \<Rightarrow> string" where
  "intent_key (IntentName name) = name"
| "intent_key (IntentDict name properties) = name"

definition merge :: "constants \<Rightarrow> domain \<Rightarrow> domain option \<Rightarrow> bool \<Rightarrow> py_error + domain" where
  "merge K self other override =
     (case other of
        None \<Rightarrow> Inr self
      | Some other_domain \<Rightarrow>
          (let domain_dict' = as_dict other_domain;
               combined = as_dict self;
               intents_1 = foldl (\<lambda>m i. dict_set m (intent_key i) i) [] (intents_key combined);
               intents_2 = foldl (\<lambda>m i. dict_set m (intent_key i) i) [] (intents_key domain_dict');
               merged_intents = merge_dicts intents_1 intents_2 override;
               new_actions = remove_forms (forms_key combined) (actions_key domain_dict')
           in from_dict K
                \<lparr> config_store_entities_as_slots =
                    (if override then config_store_entities_as_slots domain_dict'
                     else config_store_entities_as_slots combined),
                  session_config_key =
                    (if override \<or> session_config self = default_session_config K
                     then session_config_key domain_dict' else session_config_key combined),
                  intents_key = dict_values merged_intents,
                  entities_key = merge_lists (entities_key combined) (entities_key domain_dict'),
                  slots_key = merge_dicts (slots_key combined) (slots_key domain_dict') override,
                  responses_key =
                    merge_dicts (responses_key combined) (responses_key domain_dict') override,
                  actions_key = merge_lists (actions_key combined) new_actions,
                  forms_key = merge_lists (forms_key combined) (forms_key domain_dict') \<rparr>))"

text \<open>
  \<open>as_dict\<close> hands out the list \<open>user_actions\<close> itself, so the removal of the
  forms changes the list of the domain that was passed in. \<open>other_after_merge\<close> is
  that domain after the call \<open>self.merge(other)\<close>.
\<close>

definition other_after_merge :: "domain \<Rightarrow> domain \<Rightarrow> domain" where
  "other_after_merge self other =
     other \<lparr> user_actions := remove_forms (form_names self) (user_actions other) \<rparr>"

section \<open>The evaluation store (rasa/core/test.py)\<close>

record EvaluationStore =
  action_predictions :: "string list"
  action_targets :: "string list"
  intent_predictions :: "string list"
  intent_targets :: "string list"
  entity_predictions :: "(string, string) dict list"
  entity_targets :: "(string, string) dict list"

text \<open>
  An argument of \<open>add_to_store\<close>: \<open>None\<close>, a list of items, or one item. Items
  are strings or dictionaries, both lists here, and an empty one is false in Python:
  \<open>if k != "self" and v\<close> skips \<open>None\<close>, the empty list and the empty item; a list
  extends the attribute, an item is appended.
\<close>

datatype 'a store_arg = ArgNone | ArgList "'a list list" | ArgItem "'a list"

fun add_arg :: "'a list list \<Rightarrow> 'a store_arg \<Rightarrow> 'a list list" where
  "add_arg attr ArgNone = attr"
| "add_arg attr (ArgList v) = (if v \<noteq> [] then attr @ v else attr)"
| "add_arg attr (ArgItem v) = (if v \<noteq> [] then attr @ [v] else attr)"

definition add_to_store ::
  "EvaluationStore \<Rightarrow> char store_arg \<Rightarrow> char store_arg \<Rightarrow> char store_arg \<Rightarrow> char store_arg \<Rightarrow>
   (string \<times> string) store_arg \<Rightarrow> (string \<times> string) store_arg \<Rightarrow> EvaluationStore" where
  "add_to_store self action_predictions' action_targets' intent_predictions' intent_targets'
       entity_predictions' entity_targets' =
     \<lparr> action_predictions = add_arg (action_predictions self) action_predictions',
       action_targets = add_arg (action_targets self) action_targets',
       intent_predictions = add_arg (intent_predictions self) intent_predictions',
       intent_targets = add_arg (intent_targets self) intent_targets',
       entity_predictions = add_arg (entity_predictions self) entity_predictions',
       entity_targets = add_arg (entity_targets self) entity_targets' \<rparr>"

definition merge_store :: "EvaluationStore \<Rightarrow> EvaluationStore \<Rightarrow> EvaluationStore" where
  "merge_store self other =
     add_to_store self (ArgList (action_predictions other)) (ArgList (action_targets other))
       (ArgList (intent_predictions other)) (ArgList (intent_targets other))
       (ArgList (entity_predictions other)) (ArgList (entity_targets other))"

definition empty_store :: EvaluationStore where
  "empty_store = \<lparr> action_predictions = [], action_targets = [], intent_predictions = [],
                    intent_targets = [], entity_predictions = [], entity_targets = [] \<rparr>"

text \<open>
  Modelled from the spec: \<open>pad_lists_to_size\<close> (rasa/core/utils.py is not among the
  modelled files). The spec says that serialization pads unequal-length prediction and
  target sequences with a sentinel so that both have the same length: the shorter list
  gets the padding value at its end until it is as long as the other.
\<close>

definition pad_lists_to_size :: "'a list \<Rightarrow> 'a list \<Rightarrow> 'a \<Rightarrow> 'a list \<times> 'a list" where
  "pad_lists_to_size list_x list_y padding_value =
     (if length list_x > length list_y
      then (list_x, list_y @ replicate (length list_x - length list_y) padding_value)
      else if length list_x < length list_y
      then (list_x @ replicate (length list_y - length list_x) padding_value, list_y)
      else (list_x, list_y))"

text \<open>
  \<open>serialise\<close>. \<open>MarkdownWriter.generate_entity_md(text, entity)\<close> belongs to the
  language-understanding package and is a parameter.
\<close>

definition serialise_targets ::
  "(string option \<Rightarrow> (string, string) dict \<Rightarrow> string) \<Rightarrow> EvaluationStore \<Rightarrow> string list" where
  "serialise_targets generate_entity_md self =
     action_targets self @ intent_targets self
       @ map (\<lambda>gold. generate_entity_md (dict_get gold ''text'') gold) (entity_targets self)"

definition serialise_predictions ::
  "(string option \<Rightarrow> (string, string) dict \<Rightarrow> string) \<Rightarrow> EvaluationStore \<Rightarrow> string list" where
  "serialise_predictions generate_entity_md self =
     action_predictions self @ intent_predictions self
       @ map (\<lambda>predicted. generate_entity_md (dict_get predicted ''text'') predicted)
           (entity_predictions self)"

definition serialise ::
  "(string option \<Rightarrow> (string, string) dict \<Rightarrow> string) \<Rightarrow> EvaluationStore \<Rightarrow> string list \<times> string list" where
  "serialise generate_entity_md self =
     pad_lists_to_size (serialise_targets generate_entity_md self)
       (serialise_predictions generate_entity_md self) ''None''"

text \<open>A sequence of operations on a store.\<close>

datatype store_op =
    AddToStore "char store_arg" "char store_arg" "char store_arg" "char store_arg"
      "(string \<times> string) store_arg" "(string \<times> string) store_arg"
  | MergeStore EvaluationStore

fun apply_store_op :: "EvaluationStore \<Rightarrow> store_op \<Rightarrow> EvaluationStore" where
  "apply_store_op s (AddToStore ap at' ip it' ep et) = add_to_store s ap at' ip it' ep et"
| "apply_store_op s (MergeStore other) = merge_store s other"

definition run_store_ops :: "EvaluationStore \<Rightarrow> store_op list \<Rightarrow> EvaluationStore" where
  "run_store_ops s ops = foldl apply_store_op s ops"

section \<open>The version guard (\<open>PolicyEnsemble.ensure_model_compatibility\<close>)\<close>

text \<open>
  \<open>packaging.version.parse\<close> is a parameter: a function from version strings to a
  linearly ordered type. The metadata is the dictionary read from \<open>metadata.json\<close>.
\<close>

definition unsupported_message :: "string \<Rightarrow> string \<Rightarrow> string \<Rightarrow> string" where
  "unsupported_message model_version instance_version version_to_check =
     ''The model version is too old to be '' @ ''loaded by this Rasa Core instance. ''
     @ ''Either retrain the model, or run with '' @ ''an older version. ''
     @ ''Model version: '' @ model_version @ '' Instance version: '' @ instance_version
     @ '' Minimal compatible version: '' @ version_to_check"

definition ensure_model_compatibility ::
  "(string \<Rightarrow> 'v::linorder) \<Rightarrow> constants \<Rightarrow> (string, string) dict \<Rightarrow> string option \<Rightarrow> py_error + unit" where
  "ensure_model_compatibility parse K metadata version_to_check' =
     (let version_to_check =
            (case version_to_check' of None \<Rightarrow> MINIMUM_COMPATIBLE_VERSION K | Some v \<Rightarrow> v);
          model_version = (case dict_get metadata ''rasa'' of None \<Rightarrow> ''0.0.0'' | Some v \<Rightarrow> v)
      in if parse model_version < parse version_to_check
         then Inl (UnsupportedDialogueModelError
                     (unsupported_message model_version (rasa_version K) version_to_check)
                     model_version)
         else Inr ())"

text \<open>The model version the guard reads from the metadata, and the version it
  checks against.\<close>

definition recorded_model_version :: "(string, string) dict \<Rightarrow> string" where
  "recorded_model_version metadata =
     (case dict_get metadata ''rasa'' of None \<Rightarrow> ''0.0.0'' | Some v \<Rightarrow> v)"

definition required_version :: "constants \<Rightarrow> string option \<Rightarrow> string" where
  "required_version K version_to_check' =
     (case version_to_check' of None \<Rightarrow> MINIMUM_COMPATIBLE_VERSION K | Some v \<Rightarrow> v)"

text \<open>
  A reading of \<open>packaging.version.parse\<close>, to evaluate the guard on examples. It
  reads a release \<open>N(.N)*\<close>, optionally followed by a pre-release \<open>aN\<close>,
  \<open>bN\<close> or \<open>rcN\<close>, as the pair of the release numbers without their trailing
  zeros (1.9 and 1.9.0 are the same version) and the phase of the release (0, 1, 2 for
  the pre-releases a, b, rc, and 3 for the release itself) with the number of the
  pre-release. Pairs and lists are ordered lexicographically, so that
  1.6.0a2 < 1.6.0rc1 < 1.6.0 < 1.6.1. The other forms of a version (epochs, post and
  development releases, local versions) are not read.
\<close>

definition digit_value :: "char \<Rightarrow> nat" where
  "digit_value c = (case list_index ''0123456789'' c of Some n \<Rightarrow> n | None \<Rightarrow> 0)"

fun split_dots :: "string \<Rightarrow> string list" where
  "split_dots [] = [[]]"
| "split_dots (c # cs) =
     (if c = CHR ''.'' then [] # split_dots cs
      else (case split_dots cs of [] \<Rightarrow> [[c]] | w # ws \<Rightarrow> (c # w) # ws))"

definition number_of :: "string \<Rightarrow> nat" where
  "number_of s = foldl (\<lambda>n c. 10 * n + digit_value c) 0 s"

definition drop_trailing_zeros :: "nat list \<Rightarrow> nat list" where
  "drop_trailing_zeros ns = rev (dropWhile (\<lambda>n. n = 0) (rev ns))"

definition version_parse :: "string \<Rightarrow> nat list \<times> nat \<times> nat" where
  "version_parse s =
     (let release = takeWhile (\<lambda>c. c \<in> set ''0123456789.'') s;
          pre = dropWhile (\<lambda>c. c \<in> set ''0123456789.'') s
      in (drop_trailing_zeros (map number_of (split_dots release)),
          if pre = [] then (3, 0)
          else if take 2 pre = ''rc'' then (2, number_of (drop 2 pre))
          else if take 1 pre = ''b'' then (1, number_of (drop 1 pre))
          else (0, number_of (drop 1 pre))))"

subsection \<open>What a valid construction needs\<close>

text \<open>
  The arguments of \<open>Domain.__init__\<close> with which the construction succeeds: intent
  names, action names, slot names and entities without duplicates, and every intent's
  trigger an action of the domain.
\<close>

definition init_action_names ::
  "constants \<Rightarrow> (string, template list) dict \<Rightarrow> string list \<Rightarrow> string list \<Rightarrow> string list" where
  "init_action_names K templates' action_names' form_names' =
     combine_user_with_default_actions K (combine_with_templates action_names' templates') @ form_names'"

definition valid_arguments ::
  "constants \<Rightarrow> intent_decl list \<Rightarrow> string list \<Rightarrow> slot list \<Rightarrow> (string, template list) dict \<Rightarrow>
   string list \<Rightarrow> string list \<Rightarrow> bool" where
  "valid_arguments K intents entities' slots' templates' action_names' form_names' =
     (distinct (map intent_key intents)
      \<and> distinct (init_action_names K templates' action_names' form_names')
      \<and> distinct (map slot_name slots')
      \<and> distinct entities'
      \<and> (\<forall>i \<in> set intents. \<forall>a. triggers (snd (intent_entry i)) = Some a \<longrightarrow>
             a \<in> set (init_action_names K templates' action_names' form_names')))"

definition inform_message :: UserUttered where
  "inform_message =
     \<lparr> intent_name = Some ''inform'', intent_confidence = Some 0.9,
       intent_ranking = Some [(Some ''inform'', 0.9), (Some ''greet'', 0.1)],
       message_entities = [[(''entity'', ''city''), (''value'', ''Berlin'')],
                           [(''entity'', ''date''), (''value'', ''today'')],
                           [(''value'', ''and more'')]] \<rparr>"

definition example_inform_tracker :: tracker where
  "example_inform_tracker =
     \<lparr> events = [ActionExecuted ''action_listen'', OtherEvent],
       latest_action_name = Some ''action_listen'',
       latest_message = Some inform_message,
       tracker_slots = [(''city'', Some [1]), (''requested_slot'', None)] \<rparr>"

definition example_domain_a :: domain where
  "example_domain_a =
     \<lparr> intent_properties =
         [(''greet'', \<lparr> use_entities = Some UseTrue, ignore_entities = Some [], triggers = None \<rparr>)],
       entities = [''city''],
       form_names = [''booking_form''],
       slots = [],
       templates = [(''utter_greet'', [TemplateDict [(''text'', ''hello'')]])],
       session_config = \<lparr> session_expiration_time = 0, carry_over_slots = True \<rparr>,
       user_actions = [''action_custom_fallback'', ''utter_greet''],
       action_names = [''action_listen'', ''action_restart'', ''action_default_fallback'',
                       ''action_custom_fallback'', ''utter_greet'', ''booking_form''],
       store_entities_as_slots = True \<rparr>"

definition example_domain_b :: domain where
  "example_domain_b =
     \<lparr> intent_properties =
         [(''inform'', \<lparr> use_entities = Some (UseList [''city'']), ignore_entities = Some [],
                         triggers = Some ''action_search'' \<rparr>)],
       entities = [''date'', ''city''],
       form_names = [],
       slots = [\<lparr> slot_name = ''city'', type_name = ''text'', feature_dimensionality = 1,
                  auto_fill = True \<rparr>],
       templates = [(''utter_bye'', [TemplateDict [(''text'', ''bye'')]])],
       session_config = \<lparr> session_expiration_time = 60, carry_over_slots = True \<rparr>,
       user_actions = [''action_search'', ''utter_bye''],
       action_names = [''action_listen'', ''action_restart'', ''action_default_fallback'',
                       ''action_search'', ''utter_bye''],
       store_entities_as_slots = True \<rparr>"

definition example_merged_ab :: domain where
  "example_merged_ab =
     \<lparr> intent_properties =
         [(''inform'', \<lparr> use_entities = Some (UseList [''city'']), ignore_entities = Some [],
                         triggers = Some ''action_search'' \<rparr>),
          (''greet'', \<lparr> use_entities = Some UseTrue, ignore_entities = Some [], triggers = None \<rparr>)],
       entities = [''city'', ''date''],
       form_names = [''booking_form''],
       slots = [\<lparr> slot_name = ''city'', type_name = ''text'', feature_dimensionality = 1,
                  auto_fill = True \<rparr>],
       templates = [(''utter_bye'', [TemplateDict [(''text'', ''bye'')]]),
                    (''utter_greet'', [TemplateDict [(''text'', ''hello'')]])],
       session_config = \<lparr> session_expiration_time = 60, carry_over_slots = True \<rparr>,
       user_actions = [''action_custom_fallback'', ''action_search'', ''utter_bye'', ''utter_greet''],
       action_names = [''action_listen'', ''action_restart'', ''action_default_fallback'',
                       ''action_custom_fallback'', ''action_search'', ''utter_bye'',
                       ''utter_greet'', ''booking_form''],
       store_entities_as_slots = True \<rparr>"

definition example_merged_ba :: domain where
  "example_merged_ba =
     \<lparr> intent_properties =
         [(''greet'', \<lparr> use_entities = Some UseTrue, ignore_entities = Some [], triggers = None \<rparr>),
          (''inform'', \<lparr> use_entities = Some (UseList [''city'']), ignore_entities = Some [],
                         triggers = Some ''action_search'' \<rparr>)],
       entities = [''city'', ''date''],
       form_names = [''booking_form''],
       slots = [\<lparr> slot_name = ''city'', type_name = ''text'', feature_dimensionality = 1,
                  auto_fill = True \<rparr>],
       templates = [(''utter_greet'', [TemplateDict [(''text'', ''hello'')]]),
                    (''utter_bye'', [TemplateDict [(''text'', ''bye'')]])],
       session_config = \<lparr> session_expiration_time = 60, carry_over_slots = True \<rparr>,
       user_actions = [''action_custom_fallback'', ''action_search'', ''utter_bye'', ''utter_greet''],
       action_names = [''action_listen'', ''action_restart'', ''action_default_fallback'',
                       ''action_custom_fallback'', ''action_search'', ''utter_bye'',
                       ''utter_greet'', ''booking_form''],
       store_entities_as_slots = True \<rparr>"

definition ambiguous_intents :: "intent_decl list" where
  "ambiguous_intents =
     [IntentName ''greet'',
      IntentDict ''inform''
        \<lparr> use_entities = Some (UseList [''city'', ''date'']), ignore_entities = Some [''date''],
          triggers = None \<rparr>]"

definition example_ambiguous_domain :: domain where
  "example_ambiguous_domain =
     \<lparr> intent_properties =
         [(''greet'', \<lparr> use_entities = Some UseTrue, ignore_entities = Some [], triggers = None \<rparr>),
          (''inform'', \<lparr> use_entities = Some (UseList [''city'', ''date'']),
                         ignore_entities = Some [''date''], triggers = None \<rparr>)],
       entities = [''city'', ''date''],
       form_names = [],
       slots = [],
       templates = [(''utter_greet'', [TemplateDict [(''text'', ''hello'')]])],
       session_config = \<lparr> session_expiration_time = 0, carry_over_slots = True \<rparr>,
       user_actions = [''action_custom_fallback'', ''utter_greet''],
       action_names = [''action_listen'', ''action_restart'', ''action_default_fallback'',
                       ''action_custom_fallback'', ''utter_greet''],
       store_entities_as_slots = True \<rparr>"

section \<open>Properties of the ensemble\<close>

subsection \<open>Comparison of keys, maxima and indices\<close>

lemma str_nat_digit: "n < 10 \<Longrightarrow> str_nat n = [digit_char n]"
  by (simp add: str_nat.simps [of n])

lemma float_eq_Float: "float_eq y (Float c) \<longleftrightarrow> y = Float c"
  by (cases y) simp_all

lemma tuple_gt_Float: "tuple_gt (Float c, q) (Float c', q') = key_above c q c' q'"
  by (auto simp: tuple_gt_def key_above_def)

lemma tuple_gt_NaN_left: "\<not> tuple_gt (NaN, q) y"
  by (simp add: tuple_gt_def)

lemma tuple_gt_NaN_right: "\<not> tuple_gt x (NaN, q)"
  by (cases "fst x") (simp_all add: tuple_gt_def)

lemma key_above_trans: "key_above a p b q \<Longrightarrow> key_above b q c r \<Longrightarrow> key_above a p c r"
  by (auto simp: key_above_def)

lemma key_above_asym: "key_above a p b q \<Longrightarrow> \<not> key_above b q a p"
  by (auto simp: key_above_def)

lemma key_above_le_trans: "key_above a p b q \<Longrightarrow> \<not> key_above c r b q \<Longrightarrow> key_above a p c r"
  by (auto simp: key_above_def)

lemma chosen_key:
  "chosen tr d i p b \<Longrightarrow>
   policy_key tr d p = Inr (max_confidence b, priority p) \<and> best_policy_priority b = priority p"
  by (auto simp: chosen_def policy_key_def)

lemma policy_key_priority: "policy_key tr d p = Inr (c, q) \<Longrightarrow> q = priority p"
  by (auto simp: policy_key_def split: sum.splits)

text \<open>\<open>first_maximal\<close> in two parts: no key is above the key at \<open>k\<close>, and the key
  at \<open>k\<close> is above every key before it.\<close>

lemma first_maximal_iff:
  "first_maximal tr d ps k \<longleftrightarrow>
     k < length ps \<and>
     (\<exists>c. policy_key tr d (ps ! k) = Inr (Float c, priority (ps ! k)) \<and>
        (\<forall>j < length ps. \<forall>cj. policy_key tr d (ps ! j) = Inr (Float cj, priority (ps ! j)) \<longrightarrow>
             \<not> key_above cj (priority (ps ! j)) c (priority (ps ! k))) \<and>
        (\<forall>j < k. \<forall>cj. policy_key tr d (ps ! j) = Inr (Float cj, priority (ps ! j)) \<longrightarrow>
             key_above c (priority (ps ! k)) cj (priority (ps ! j))))"
  (is "?L \<longleftrightarrow> ?R")
proof
  assume ?L
  then obtain c where len: "k < length ps"
    and key: "policy_key tr d (ps ! k) = Inr (Float c, priority (ps ! k))"
    and all: "\<And>j cj. j < length ps \<Longrightarrow>
          policy_key tr d (ps ! j) = Inr (Float cj, priority (ps ! j)) \<Longrightarrow>
          cj < c \<or> (cj = c \<and> priority (ps ! j) < priority (ps ! k))
          \<or> (cj = c \<and> priority (ps ! j) = priority (ps ! k) \<and> k \<le> j)"
    unfolding first_maximal_def by blast
  have a: "\<not> key_above cj (priority (ps ! j)) c (priority (ps ! k))"
    if "j < length ps" "policy_key tr d (ps ! j) = Inr (Float cj, priority (ps ! j))" for j cj
    using all [OF that] by (auto simp: key_above_def)
  have b: "key_above c (priority (ps ! k)) cj (priority (ps ! j))"
    if "j < k" "policy_key tr d (ps ! j) = Inr (Float cj, priority (ps ! j))" for j cj
  proof -
    from that(1) len have "j < length ps" by simp
    from all [OF this that(2)] that(1) show ?thesis by (auto simp: key_above_def)
  qed
  from len key a b show ?R by blast
next
  assume ?R
  then obtain c where len: "k < length ps"
    and key: "policy_key tr d (ps ! k) = Inr (Float c, priority (ps ! k))"
    and a: "\<And>j cj. j < length ps \<Longrightarrow>
          policy_key tr d (ps ! j) = Inr (Float cj, priority (ps ! j)) \<Longrightarrow>
          \<not> key_above cj (priority (ps ! j)) c (priority (ps ! k))"
    and b: "\<And>j cj. j < k \<Longrightarrow>
          policy_key tr d (ps ! j) = Inr (Float cj, priority (ps ! j)) \<Longrightarrow>
          key_above c (priority (ps ! k)) cj (priority (ps ! j))"
    by blast
  have "cj < c \<or> (cj = c \<and> priority (ps ! j) < priority (ps ! k))
          \<or> (cj = c \<and> priority (ps ! j) = priority (ps ! k) \<and> k \<le> j)"
    if j: "j < length ps" and kj: "policy_key tr d (ps ! j) = Inr (Float cj, priority (ps ! j))"
    for j cj
  proof (cases "j < k")
    case True
    from b [OF True kj] show ?thesis by (auto simp: key_above_def)
  next
    case False
    with a [OF j kj] show ?thesis by (auto simp: key_above_def)
  qed
  with len key show ?L unfolding first_maximal_def by blast
qed

lemma first_maximal_head:
  assumes "policy_key tr d p = Inr (Float c, priority p)"
    and "\<forall>j < length ps. \<forall>cj. policy_key tr d (ps ! j) = Inr (Float cj, priority (ps ! j)) \<longrightarrow>
           \<not> key_above cj (priority (ps ! j)) c (priority p)"
  shows "first_maximal tr d (p # ps) 0"
  unfolding first_maximal_iff using assms
  by (auto simp: nth_Cons key_above_def split: nat.splits)

lemma first_maximal_shift:
  assumes fm: "first_maximal tr d ps k"
    and key: "policy_key tr d (ps ! k) = Inr (Float c, priority (ps ! k))"
    and head: "\<forall>c0. policy_key tr d p = Inr (Float c0, priority p) \<longrightarrow>
           key_above c (priority (ps ! k)) c0 (priority p)"
  shows "first_maximal tr d (p # ps) (Suc k)"
proof -
  from fm key have len: "k < length ps"
    and a: "\<And>j cj. j < length ps \<Longrightarrow>
          policy_key tr d (ps ! j) = Inr (Float cj, priority (ps ! j)) \<Longrightarrow>
          \<not> key_above cj (priority (ps ! j)) c (priority (ps ! k))"
    and b: "\<And>j cj. j < k \<Longrightarrow>
          policy_key tr d (ps ! j) = Inr (Float cj, priority (ps ! j)) \<Longrightarrow>
          key_above c (priority (ps ! k)) cj (priority (ps ! j))"
    unfolding first_maximal_iff by auto
  have a': "\<not> key_above cj (priority ((p # ps) ! j)) c (priority ((p # ps) ! Suc k))"
    if "j < length (p # ps)"
      and "policy_key tr d ((p # ps) ! j) = Inr (Float cj, priority ((p # ps) ! j))" for j cj
  proof (cases j)
    case 0
    with that(2) head have "key_above c (priority (ps ! k)) cj (priority p)" by simp
    then have "\<not> key_above cj (priority p) c (priority (ps ! k))" by (rule key_above_asym)
    with 0 show ?thesis by simp
  next
    case (Suc m)
    with that a [of m cj] show ?thesis by simp
  qed
  have b': "key_above c (priority ((p # ps) ! Suc k)) cj (priority ((p # ps) ! j))"
    if "j < Suc k"
      and "policy_key tr d ((p # ps) ! j) = Inr (Float cj, priority ((p # ps) ! j))" for j cj
  proof (cases j)
    case 0
    with that(2) head show ?thesis by simp
  next
    case (Suc m)
    with that b [of m cj] show ?thesis by simp
  qed
  have "Suc k < length (p # ps)" using len by simp
  moreover have "policy_key tr d ((p # ps) ! Suc k) = Inr (Float c, priority ((p # ps) ! Suc k))"
    using key by simp
  ultimately show ?thesis
    unfolding first_maximal_iff using a' b' by blast
qed

lemma loop_winner:
  assumes "\<forall>p \<in> set ps. \<exists>x. scored tr d p = Inr x" and "max_confidence b = Float cb"
  shows "\<exists>b'. best_policy_loop tr d (enumerate n ps) b = Inr b' \<and> winner_from tr d n ps b b'"
  using assms
proof (induction ps arbitrary: n b cb)
  case Nil
  then show ?case by (simp add: winner_from_def)
next
  case (Cons p ps)
  let ?qb = "best_policy_priority b"
  note cb = Cons.prems(2)
  from Cons.prems(1) obtain pr c where sc: "scored tr d p = Inr (pr, c)"
    by auto
  have key: "policy_key tr d p = Inr (c, priority p)"
    using sc by (simp add: policy_key_def)
  from Cons.prems(1) have rest: "\<forall>p \<in> set ps. \<exists>x. scored tr d p = Inr x"
    by simp
  show ?case
  proof (cases "tuple_gt (c, priority p) (max_confidence b, best_policy_priority b)")
    case True
    then obtain x where c: "c = Float x"
      using tuple_gt_NaN_left by (cases c) auto
    from True have above: "key_above x (priority p) cb ?qb"
      unfolding c cb tuple_gt_Float .
    define b1 where "b1 = \<lparr> result = Some pr, max_confidence = c,
              best_policy_name = Some (policy_name n p), best_policy_priority = priority p \<rparr>"
    have ch: "chosen tr d n p b1"
      using sc by (simp add: chosen_def b1_def)
    have mb1: "max_confidence b1 = Float x" and qb1: "best_policy_priority b1 = priority p"
      by (simp_all add: b1_def c)
    from Cons.IH [OF rest mb1, of "Suc n"] obtain b' where
      run: "best_policy_loop tr d (enumerate (Suc n) ps) b1 = Inr b'" and
      w: "winner_from tr d (Suc n) ps b1 b'"
      by blast
    have step: "best_policy_loop tr d (enumerate n (p # ps)) b = Inr b'"
      using sc True run by (simp add: b1_def)
    from w mb1 have alt: "(b' = b1 \<and>
          (\<forall>j < length ps. \<forall>cj. policy_key tr d (ps ! j) = Inr (Float cj, priority (ps ! j)) \<longrightarrow>
               \<not> key_above cj (priority (ps ! j)) x (priority p)))
         \<or> (\<exists>k c'. first_maximal tr d ps k \<and> chosen tr d (Suc n + k) (ps ! k) b' \<and>
                  max_confidence b' = Float c' \<and>
                  key_above c' (best_policy_priority b') x (priority p))"
      unfolding winner_from_def qb1 by auto
    have "\<exists>k c'. first_maximal tr d (p # ps) k \<and> chosen tr d (n + k) ((p # ps) ! k) b' \<and>
                  max_confidence b' = Float c' \<and>
                  key_above c' (best_policy_priority b') cb ?qb"
      using alt
    proof (elim disjE conjE exE)
      assume eq: "b' = b1"
        and none: "\<forall>j < length ps. \<forall>cj. policy_key tr d (ps ! j) = Inr (Float cj, priority (ps ! j)) \<longrightarrow>
               \<not> key_above cj (priority (ps ! j)) x (priority p)"
      have "first_maximal tr d (p # ps) 0"
        using key none unfolding c by (rule first_maximal_head)
      moreover have "chosen tr d (n + 0) ((p # ps) ! 0) b'"
        using ch eq by simp
      moreover have "max_confidence b' = Float x" "best_policy_priority b' = priority p"
        using eq mb1 qb1 by simp_all
      ultimately show ?thesis using above by metis
    next
      fix k c'
      assume fm: "first_maximal tr d ps k"
        and ch': "chosen tr d (Suc n + k) (ps ! k) b'"
        and mb': "max_confidence b' = Float c'"
        and gt: "key_above c' (best_policy_priority b') x (priority p)"
      from chosen_key [OF ch'] mb' have kk: "policy_key tr d (ps ! k) = Inr (Float c', priority (ps ! k))"
        and qq: "best_policy_priority b' = priority (ps ! k)" by simp_all
      have "\<forall>c0. policy_key tr d p = Inr (Float c0, priority p) \<longrightarrow>
           key_above c' (priority (ps ! k)) c0 (priority p)"
        using key gt unfolding c qq by simp
      with fm kk have "first_maximal tr d (p # ps) (Suc k)"
        by (rule first_maximal_shift)
      moreover have "chosen tr d (n + Suc k) ((p # ps) ! Suc k) b'"
        using ch' by simp
      moreover have "key_above c' (best_policy_priority b') cb ?qb"
        using gt above by (rule key_above_trans)
      ultimately show ?thesis using mb' by blast
    qed
    then have "winner_from tr d n (p # ps) b b'"
      unfolding winner_from_def using cb by blast
    with step show ?thesis by blast
  next
    case False
    from Cons.IH [OF rest cb, of "Suc n"] obtain b' where
      run: "best_policy_loop tr d (enumerate (Suc n) ps) b = Inr b'" and
      w: "winner_from tr d (Suc n) ps b b'"
      by blast
    have step: "best_policy_loop tr d (enumerate n (p # ps)) b = Inr b'"
      using sc False run by simp
    have below: "\<forall>c0. policy_key tr d p = Inr (Float c0, priority p) \<longrightarrow>
           \<not> key_above c0 (priority p) cb ?qb"
      using key False unfolding cb by (auto simp: tuple_gt_Float)
    from w cb have alt: "(b' = b \<and>
          (\<forall>j < length ps. \<forall>cj. policy_key tr d (ps ! j) = Inr (Float cj, priority (ps ! j)) \<longrightarrow>
               \<not> key_above cj (priority (ps ! j)) cb ?qb))
         \<or> (\<exists>k c'. first_maximal tr d ps k \<and> chosen tr d (Suc n + k) (ps ! k) b' \<and>
                  max_confidence b' = Float c' \<and>
                  key_above c' (best_policy_priority b') cb ?qb)"
      unfolding winner_from_def by auto
    have "(b' = b \<and>
          (\<forall>j < length (p # ps). \<forall>cj.
               policy_key tr d ((p # ps) ! j) = Inr (Float cj, priority ((p # ps) ! j)) \<longrightarrow>
               \<not> key_above cj (priority ((p # ps) ! j)) cb ?qb))
         \<or> (\<exists>k c'. first_maximal tr d (p # ps) k \<and> chosen tr d (n + k) ((p # ps) ! k) b' \<and>
                  max_confidence b' = Float c' \<and>
                  key_above c' (best_policy_priority b') cb ?qb)"
      using alt
    proof (elim disjE conjE exE)
      assume eq: "b' = b"
        and none: "\<forall>j < length ps. \<forall>cj. policy_key tr d (ps ! j) = Inr (Float cj, priority (ps ! j)) \<longrightarrow>
               \<not> key_above cj (priority (ps ! j)) cb ?qb"
      have "\<forall>j < length (p # ps). \<forall>cj.
               policy_key tr d ((p # ps) ! j) = Inr (Float cj, priority ((p # ps) ! j)) \<longrightarrow>
               \<not> key_above cj (priority ((p # ps) ! j)) cb ?qb"
        using none below by (auto simp: nth_Cons split: nat.splits)
      with eq show ?thesis by blast
    next
      fix k c'
      assume fm: "first_maximal tr d ps k"
        and ch': "chosen tr d (Suc n + k) (ps ! k) b'"
        and mb': "max_confidence b' = Float c'"
        and gt: "key_above c' (best_policy_priority b') cb ?qb"
      from chosen_key [OF ch'] mb' have kk: "policy_key tr d (ps ! k) = Inr (Float c', priority (ps ! k))"
        and qq: "best_policy_priority b' = priority (ps ! k)" by simp_all
      have "\<forall>c0. policy_key tr d p = Inr (Float c0, priority p) \<longrightarrow>
           key_above c' (priority (ps ! k)) c0 (priority p)"
      proof (intro allI impI)
        fix c0 assume "policy_key tr d p = Inr (Float c0, priority p)"
        with below have "\<not> key_above c0 (priority p) cb ?qb" by blast
        with gt show "key_above c' (priority (ps ! k)) c0 (priority p)"
          unfolding qq by (rule key_above_le_trans)
      qed
      with fm kk have "first_maximal tr d (p # ps) (Suc k)"
        by (rule first_maximal_shift)
      moreover have "chosen tr d (n + Suc k) ((p # ps) ! Suc k) b'"
        using ch' by simp
      ultimately show ?thesis using mb' gt by blast
    qed
    then have "winner_from tr d n (p # ps) b b'"
      unfolding winner_from_def using cb by blast
    with step show ?thesis by blast
  qed
qed

lemma loop_invariant:
  assumes "best_policy_loop tr d ips b = Inr b'"
    and "P b"
    and "\<And>i p probabilities confidence. (i, p) \<in> set ips \<Longrightarrow>
           scored tr d p = Inr (probabilities, confidence) \<Longrightarrow>
           P \<lparr> result = Some probabilities, max_confidence = confidence,
               best_policy_name = Some (policy_name i p), best_policy_priority = priority p \<rparr>"
  shows "P b'"
  using assms
proof (induction ips arbitrary: b)
  case Nil
  then show ?case by simp
next
  case (Cons ip ips)
  obtain i p where ip: "ip = (i, p)" by (cases ip)
  from Cons.prems(1) ip obtain pr c where sc: "scored tr d p = Inr (pr, c)"
    by (auto split: sum.splits)
  let ?b1 = "\<lparr> result = Some pr, max_confidence = c,
               best_policy_name = Some (policy_name i p), best_policy_priority = priority p \<rparr>"
  have P1: "P ?b1"
    using Cons.prems(3) [of i p pr c] sc ip by simp
  have later: "\<And>i p probabilities confidence. (i, p) \<in> set ips \<Longrightarrow>
           scored tr d p = Inr (probabilities, confidence) \<Longrightarrow>
           P \<lparr> result = Some probabilities, max_confidence = confidence,
               best_policy_name = Some (policy_name i p), best_policy_priority = priority p \<rparr>"
    using Cons.prems(3) by simp
  show ?case
  proof (cases "tuple_gt (c, priority p) (max_confidence b, best_policy_priority b)")
    case True
    with Cons.prems(1) ip sc have "best_policy_loop tr d ips ?b1 = Inr b'"
      by simp
    then show ?thesis using P1 later by (rule Cons.IH)
  next
    case False
    with Cons.prems(1) ip sc have "best_policy_loop tr d ips b = Inr b'"
      by simp
    then show ?thesis using Cons.prems(2) later by (rule Cons.IH)
  qed
qed

lemma fold_np_maximum_NaN: "fold np_maximum xs NaN = NaN"
  by (induction xs) simp_all

lemma fold_np_maximum_has_NaN: "NaN \<in> set xs \<Longrightarrow> fold np_maximum xs a = NaN"
proof (induction xs arbitrary: a)
  case Nil
  then show ?case by simp
next
  case (Cons y ys)
  show ?case
  proof (cases "y = NaN")
    case True
    then show ?thesis by (simp add: fold_np_maximum_NaN)
  next
    case False
    with Cons.prems have "NaN \<in> set ys" by simp
    then show ?thesis using Cons.IH by simp
  qed
qed

lemma fold_np_maximum_Float:
  assumes "NaN \<notin> set xs"
  shows "\<exists>m. fold np_maximum xs (Float x) = Float m \<and> x \<le> m \<and> (\<forall>y. Float y \<in> set xs \<longrightarrow> y \<le> m)
           \<and> (Float m \<in> set xs \<or> m = x)"
  using assms
proof (induction xs arbitrary: x)
  case Nil
  then show ?case by simp
next
  case (Cons z zs)
  from Cons.prems obtain z' where z: "z = Float z'" by (cases z) auto
  from Cons.prems have "NaN \<notin> set zs" by simp
  from Cons.IH [OF this, of "max z' x"] obtain m where
    m: "fold np_maximum zs (Float (max z' x)) = Float m" and le: "max z' x \<le> m"
    and up: "\<forall>y. Float y \<in> set zs \<longrightarrow> y \<le> m" and mem: "Float m \<in> set zs \<or> m = max z' x"
    by blast
  have "fold np_maximum (z # zs) (Float x) = Float m"
    using m z by simp
  moreover have "x \<le> m" using le by simp
  moreover have "\<forall>y. Float y \<in> set (z # zs) \<longrightarrow> y \<le> m"
    using up le z by auto
  moreover have "Float m \<in> set (z # zs) \<or> m = x"
  proof -
    have "max z' x = z' \<or> max z' x = x" by (simp add: max_def)
    with mem z show ?thesis by auto
  qed
  ultimately show ?case by blast
qed

lemma np_max_Float:
  assumes "np_max xs = Inr (Float c)"
  shows "NaN \<notin> set xs \<and> Float c \<in> set xs \<and> (\<forall>y. Float y \<in> set xs \<longrightarrow> y \<le> c)"
proof (cases xs)
  case Nil
  with assms show ?thesis by simp
next
  case (Cons z zs)
  with assms have f: "fold np_maximum zs z = Float c" by simp
  have nz: "NaN \<notin> set zs"
  proof
    assume "NaN \<in> set zs"
    from fold_np_maximum_has_NaN [OF this, of z] f show False by simp
  qed
  have "z \<noteq> NaN"
  proof
    assume "z = NaN"
    with f show False by (simp add: fold_np_maximum_NaN)
  qed
  then obtain z' where z: "z = Float z'" by (cases z) auto
  from fold_np_maximum_Float [OF nz, of z'] f z obtain m where
    "Float m = Float c" and "z' \<le> m" and "\<forall>y. Float y \<in> set zs \<longrightarrow> y \<le> m"
    and "Float m \<in> set zs \<or> m = z'"
    by auto
  with nz z Cons show ?thesis by auto
qed

lemma np_max_no_NaN:
  assumes "xs \<noteq> []" and "NaN \<notin> set xs"
  shows "\<exists>c. np_max xs = Inr (Float c)"
proof -
  from assms(1) obtain z zs where xs: "xs = z # zs" by (cases xs) auto
  with assms(2) obtain z' where z: "z = Float z'" by (cases z) auto
  from assms(2) xs have "NaN \<notin> set zs" by simp
  from fold_np_maximum_Float [OF this, of z'] obtain m where
    "fold np_maximum zs (Float z') = Float m" by blast
  with xs z show ?thesis by simp
qed

lemma np_max_has_NaN:
  assumes "NaN \<in> set xs"
  shows "np_max xs = Inr NaN"
proof -
  from assms obtain z zs where xs: "xs = z # zs" by (cases xs) auto
  show ?thesis
  proof (cases "z = NaN")
    case True
    with xs show ?thesis by (simp add: fold_np_maximum_NaN)
  next
    case False
    with assms xs have "NaN \<in> set zs" by simp
    from fold_np_maximum_has_NaN [OF this, of z] xs show ?thesis by simp
  qed
qed

lemma list_index_Some_iff:
  "list_index xs x = Some i \<longleftrightarrow> (i < length xs \<and> xs ! i = x \<and> (\<forall>j < i. xs ! j \<noteq> x))"
proof (induction xs arbitrary: i)
  case Nil
  then show ?case by simp
next
  case (Cons y ys)
  show ?case
  proof (cases "y = x")
    case True
    then show ?thesis by (cases i) auto
  next
    case False
    show ?thesis
    proof (cases i)
      case 0
      with False show ?thesis by auto
    next
      case (Suc n)
      have "(\<forall>j<Suc n. (y # ys) ! j \<noteq> x) \<longleftrightarrow> (\<forall>j<n. ys ! j \<noteq> x)"
        using False by (auto simp: nth_Cons split: nat.splits)
      with False Suc Cons.IH [of n] show ?thesis by auto
    qed
  qed
qed

lemma list_index_None_iff: "list_index xs x = None \<longleftrightarrow> x \<notin> set xs"
  by (induction xs) auto

lemma list_index_mem: "x \<in> set xs \<Longrightarrow> \<exists>i. list_index xs x = Some i"
  using list_index_None_iff [of xs x] by (cases "list_index xs x") auto

lemma list_index_inj:
  "list_index xs x = Some i \<Longrightarrow> list_index xs y = Some i \<Longrightarrow> x = y"
  by (auto simp: list_index_Some_iff)

lemma float_index_Float: "float_index xs (Float c) = list_index xs (Float c)"
  by (induction xs) (simp_all add: float_eq_Float)

lemma float_index_NaN: "float_index xs NaN = None"
proof (induction xs)
  case Nil
  then show ?case by simp
next
  case (Cons y ys)
  have "\<not> float_eq y NaN" by (cases y) simp_all
  with Cons.IH show ?case by simp
qed

lemma index_for_action_Inr:
  "index_for_action d a = Inr i \<longleftrightarrow> list_index (action_names d) a = Some i"
  by (simp add: index_for_action_def split: option.splits)

lemma index_for_action_mem:
  "a \<in> set (action_names d) \<Longrightarrow> \<exists>i. index_for_action d a = Inr i \<and> i < num_actions d"
  using list_index_mem [of a "action_names d"]
  by (auto simp: index_for_action_Inr list_index_Some_iff num_actions_def)

lemma zero_rejected_rejected:
  assumes "events tr \<noteq> []" and "last (events tr) = ActionExecutionRejected X"
    and "index_for_action d X = Inr idx"
  shows "zero_rejected tr d probabilities =
           (if idx < length probabilities then Inr (probabilities[idx := Float 0])
            else Inl IndexError)"
  using assms by (simp add: zero_rejected_def)

lemma scored_rejected:
  assumes "events tr \<noteq> []" and "last (events tr) = ActionExecutionRejected X"
    and "index_for_action d X = Inr idx"
    and "scored tr d p = Inr (pr, c)"
  shows "idx < length pr \<and> pr ! idx = Float 0
         \<and> pr = (predict_action_probabilities p tr d)[idx := Float 0] \<and> np_max pr = Inr c"
proof -
  let ?raw = "predict_action_probabilities p tr d"
  from assms(4) have z: "zero_rejected tr d ?raw = Inr pr" and m: "np_max pr = Inr c"
    by (auto simp: scored_def split: sum.splits)
  from z have len: "idx < length ?raw" and pr: "pr = ?raw[idx := Float 0]"
    using zero_rejected_rejected [OF assms(1-3), of ?raw] by (auto split: if_splits)
  with m show ?thesis by simp
qed

lemma first_maximal_unique:
  assumes "first_maximal tr d ps k" and "first_maximal tr d ps k'"
  shows "k = k'"
proof -
  have aux: "\<not> a < b" if "first_maximal tr d ps a" and "first_maximal tr d ps b" for a b
  proof
    assume lt: "a < b"
    from that(1) obtain ca where la: "a < length ps"
      and ka: "policy_key tr d (ps ! a) = Inr (Float ca, priority (ps ! a))"
      and maxa: "\<forall>j < length ps. \<forall>cj. policy_key tr d (ps ! j) = Inr (Float cj, priority (ps ! j)) \<longrightarrow>
             \<not> key_above cj (priority (ps ! j)) ca (priority (ps ! a))"
      unfolding first_maximal_iff by blast
    from that(2) obtain cb where lb: "b < length ps"
      and kb: "policy_key tr d (ps ! b) = Inr (Float cb, priority (ps ! b))"
      and firstb: "\<forall>j < b. \<forall>cj. policy_key tr d (ps ! j) = Inr (Float cj, priority (ps ! j)) \<longrightarrow>
             key_above cb (priority (ps ! b)) cj (priority (ps ! j))"
      unfolding first_maximal_iff by blast
    from firstb lt ka have "key_above cb (priority (ps ! b)) ca (priority (ps ! a))" by blast
    moreover from maxa lb kb have "\<not> key_above cb (priority (ps ! b)) ca (priority (ps ! a))" by blast
    ultimately show False by contradiction
  qed
  from aux [OF assms] aux [OF assms(2) assms(1)] show ?thesis by simp
qed

lemma loop_from_start:
  assumes "\<forall>p \<in> set ps. \<exists>x. scored tr d p = Inr x"
  shows "\<exists>b. best_policy_loop tr d (enumerate 0 ps) initial_best = Inr b \<and>
           ((b = initial_best \<and>
             (\<forall>j < length ps. \<forall>cj. policy_key tr d (ps ! j) = Inr (Float cj, priority (ps ! j)) \<longrightarrow>
                  \<not> key_above cj (priority (ps ! j)) (-1) (-1)))
            \<or> (\<exists>k c. first_maximal tr d ps k \<and> chosen tr d k (ps ! k) b \<and>
                     max_confidence b = Float c \<and> key_above c (priority (ps ! k)) (-1) (-1)))"
proof -
  have mb: "max_confidence initial_best = Float (-1)"
    and qb: "best_policy_priority initial_best = -1"
    by (simp_all add: initial_best_def)
  from loop_winner [OF assms mb, of 0] obtain b where
    run: "best_policy_loop tr d (enumerate 0 ps) initial_best = Inr b"
    and w: "winner_from tr d 0 ps initial_best b"
    by blast
  from w have "(b = initial_best \<and>
             (\<forall>j < length ps. \<forall>cj. policy_key tr d (ps ! j) = Inr (Float cj, priority (ps ! j)) \<longrightarrow>
                  \<not> key_above cj (priority (ps ! j)) (-1) (-1)))
            \<or> (\<exists>k c. first_maximal tr d ps k \<and> chosen tr d k (ps ! k) b \<and>
                     max_confidence b = Float c \<and> key_above c (best_policy_priority b) (-1) (-1))"
    unfolding winner_from_def mb qb by auto
  then have "(b = initial_best \<and>
             (\<forall>j < length ps. \<forall>cj. policy_key tr d (ps ! j) = Inr (Float cj, priority (ps ! j)) \<longrightarrow>
                  \<not> key_above cj (priority (ps ! j)) (-1) (-1)))
            \<or> (\<exists>k c. first_maximal tr d ps k \<and> chosen tr d k (ps ! k) b \<and>
                     max_confidence b = Float c \<and> key_above c (priority (ps ! k)) (-1) (-1))"
    using chosen_key by metis
  with run show ?thesis by blast
qed

lemma loop_result_rejected:
  assumes rej: "events tr \<noteq> []" "last (events tr) = ActionExecutionRejected X"
    and dom: "index_for_action d X = Inr idx"
    and run: "best_policy_loop tr d ips initial_best = Inr b"
    and res: "result b = Some r"
  shows "idx < length r \<and> r ! idx = Float 0"
proof -
  let ?P = "\<lambda>b. \<forall>r. result b = Some r \<longrightarrow> idx < length r \<and> r ! idx = Float 0"
  have "?P b"
  proof (rule loop_invariant [OF run, where P = ?P])
    show "?P initial_best" by (simp add: initial_best_def)
  next
    fix i p probabilities confidence
    assume "scored tr d p = Inr (probabilities, confidence)"
    from scored_rejected [OF rej dom this]
    have "idx < length probabilities \<and> probabilities ! idx = Float 0" by blast
    then show "?P \<lparr> result = Some probabilities, max_confidence = confidence,
               best_policy_name = Some (policy_name i p), best_policy_priority = priority p \<rparr>"
      by simp
  qed
  with res show ?thesis by simp
qed

lemma fallback_idx_policy_mem:
  assumes "(i, fp) \<in> set (fallback_idx_policy ens)"
  shows "fp \<in> set (policies ens) \<and> is_FallbackPolicy fp"
  using assms by (auto simp: fallback_idx_policy_def in_set_enumerate_eq)

lemma first_filter_enumerate:
  assumes "i < length ps" and "Q (ps ! i)" and "\<forall>j < i. \<not> Q (ps ! j)"
  shows "\<exists>rest. filter (\<lambda>(i, p). Q p) (enumerate n ps) = (n + i, ps ! i) # rest"
  using assms
proof (induction ps arbitrary: n i)
  case Nil
  then show ?case by simp
next
  case (Cons p ps)
  show ?case
  proof (cases i)
    case 0
    with Cons.prems show ?thesis by simp
  next
    case (Suc m)
    with Cons.prems have notQ: "\<not> Q p" by auto
    from Cons.prems Suc have "m < length ps" "Q (ps ! m)" "\<forall>j < m. \<not> Q (ps ! j)"
      by auto
    from Cons.IH [OF this, of "Suc n"] obtain rest where
      "filter (\<lambda>(i, p). Q p) (enumerate (Suc n) ps) = (Suc n + m, ps ! m) # rest"
      by blast
    with notQ Suc show ?thesis by simp
  qed
qed

lemma first_fallback:
  assumes "i < length (policies ens)" and "is_FallbackPolicy (policies ens ! i)"
    and "\<forall>j < i. \<not> is_FallbackPolicy (policies ens ! j)"
  shows "\<exists>rest. fallback_idx_policy ens = (i, policies ens ! i) # rest"
  using first_filter_enumerate [OF assms, of 0] by (simp add: fallback_idx_policy_def)

lemma fallback_scores_nth:
  assumes "fallback_scores fp d = Inr scores" and "index_for_action d X = Inr idx"
  shows "idx < length scores \<and>
         scores ! idx = (if fallback_action_name fp = X then Float 1 else Float 0)"
proof -
  from assms(1) obtain fidx where f: "index_for_action d (fallback_action_name fp) = Inr fidx"
    and sc: "scores = (replicate (num_actions d) (Float 0))[fidx := Float 1]"
    by (auto simp: fallback_scores_def split: sum.splits)
  from assms(2) have idx: "idx < num_actions d"
    by (simp add: index_for_action_Inr list_index_Some_iff num_actions_def)
  have "fidx = idx \<longleftrightarrow> fallback_action_name fp = X"
    using f assms(2) by (auto simp: index_for_action_Inr dest: list_index_inj)
  with idx sc show ?thesis by (auto simp: nth_list_update)
qed

subsection \<open>What the call returns\<close>

lemma returned_cases:
  assumes "probabilities_using_best_policy K ens tr d = Inr (res, nm)"
  obtains
    (plain) b where "best_policy_loop tr d (enumerate 0 (policies ens)) initial_best = Inr b"
      and "\<not> override_fires K ens tr d" and "res = result b" and "nm = best_policy_name b"
  | (override) b i fp rest scores where
      "best_policy_loop tr d (enumerate 0 (policies ens)) initial_best = Inr b"
      and "override_fires K ens tr d" and "fallback_idx_policy ens = (i, fp) # rest"
      and "fallback_scores fp d = Inr scores" and "res = Some scores"
      and "nm = Some (policy_name i fp)"
proof -
  from assms obtain b where run: "best_policy_loop tr d (enumerate 0 (policies ens)) initial_best = Inr b"
    by (auto simp: probabilities_using_best_policy_def split: sum.splits)
  from assms run obtain c where cond: "override_condition K tr d b = Inr c"
    by (auto simp: probabilities_using_best_policy_def split: sum.splits)
  show thesis
  proof (cases "c \<and> fallback_idx_policy ens \<noteq> []")
    case False
    then have "\<not> override_fires K ens tr d"
      using run cond by (auto simp: override_fires_def)
    moreover from False assms run cond have "res = result b \<and> nm = best_policy_name b"
      by (auto simp: probabilities_using_best_policy_def split: bool.splits list.splits)
    ultimately show thesis using plain run by blast
  next
    case True
    then obtain i fp rest where fb: "fallback_idx_policy ens = (i, fp) # rest"
      by (cases "fallback_idx_policy ens") auto
    from True run cond have fires: "override_fires K ens tr d"
      by (auto simp: override_fires_def)
    from True assms run cond fb obtain scores where
      "fallback_scores fp d = Inr scores" "res = Some scores" "nm = Some (policy_name i fp)"
      by (auto simp: probabilities_using_best_policy_def split: sum.splits)
    with run fires fb show thesis using override by blast
  qed
qed

lemma contract_scored:
  assumes rej: "events tr \<noteq> []" "last (events tr) = ActionExecutionRejected X"
    and dom: "index_for_action d X = Inr idx"
    and len: "length (predict_action_probabilities p tr d) = num_actions d"
    and nan: "NaN \<notin> set (predict_action_probabilities p tr d)"
  shows "\<exists>pr c. scored tr d p = Inr (pr, Float c) \<and> 0 \<le> c"
proof -
  let ?raw = "predict_action_probabilities p tr d"
  let ?pr = "?raw[idx := Float 0]"
  from dom have idx: "idx < length ?raw"
    using len by (simp add: index_for_action_Inr list_index_Some_iff num_actions_def)
  then have z: "zero_rejected tr d ?raw = Inr ?pr"
    using zero_rejected_rejected [OF rej dom, of ?raw] by simp
  from idx have ne: "?pr \<noteq> []" by auto
  have "set ?pr \<subseteq> insert (Float 0) (set ?raw)" by (rule set_update_subset_insert)
  with nan have nn: "NaN \<notin> set ?pr" by auto
  from np_max_no_NaN [OF ne nn] obtain c where m: "np_max ?pr = Inr (Float c)" ..
  from idx have "?pr ! idx = Float 0" by simp
  moreover from idx have "?pr ! idx \<in> set ?pr" by (intro nth_mem) simp
  ultimately have "Float 0 \<in> set ?pr" by simp
  with np_max_Float [OF m] have "0 \<le> c" by blast
  moreover from z m have "scored tr d p = Inr (?pr, Float c)"
    by (simp add: scored_def)
  ultimately show ?thesis by blast
qed

lemma contract_loop:
  assumes rej: "events tr \<noteq> []" "last (events tr) = ActionExecutionRejected X"
    and dom: "index_for_action d X = Inr idx"
    and wf: "respects_contract K ens tr d"
  shows "\<exists>b k pr c. best_policy_loop tr d (enumerate 0 (policies ens)) initial_best = Inr b \<and>
           scored tr d (policies ens ! k) = Inr (pr, Float c) \<and>
           b = \<lparr> result = Some pr, max_confidence = Float c,
              best_policy_name = Some (policy_name k (policies ens ! k)),
              best_policy_priority = priority (policies ens ! k) \<rparr>"
proof -
  let ?ps = "policies ens"
  from wf have ne: "?ps \<noteq> []"
    and lens: "\<forall>p \<in> set ?ps. length (predict_action_probabilities p tr d) = num_actions d"
    and nans: "\<forall>p \<in> set ?ps. NaN \<notin> set (predict_action_probabilities p tr d)"
    unfolding respects_contract_def by simp_all
  have sc_all: "\<exists>pr c. scored tr d p = Inr (pr, Float c) \<and> 0 \<le> c" if "p \<in> set ?ps" for p
  proof -
    from that lens have l: "length (predict_action_probabilities p tr d) = num_actions d" by simp
    from that nans have n: "NaN \<notin> set (predict_action_probabilities p tr d)" by simp
    from rej dom l n show ?thesis by (rule contract_scored)
  qed
  have ok: "\<forall>p \<in> set ?ps. \<exists>x. scored tr d p = Inr x"
    using sc_all by blast
  from loop_from_start [OF ok] obtain b where
    run: "best_policy_loop tr d (enumerate 0 ?ps) initial_best = Inr b"
    and alt: "(b = initial_best \<and>
             (\<forall>j < length ?ps. \<forall>cj. policy_key tr d (?ps ! j) = Inr (Float cj, priority (?ps ! j)) \<longrightarrow>
                  \<not> key_above cj (priority (?ps ! j)) (-1) (-1)))
            \<or> (\<exists>k c. first_maximal tr d ?ps k \<and> chosen tr d k (?ps ! k) b \<and>
                     max_confidence b = Float c \<and> key_above c (priority (?ps ! k)) (-1) (-1))"
    by blast
  from ne have in0: "?ps ! 0 \<in> set ?ps" and l0: "0 < length ?ps" by simp_all
  from sc_all [OF in0] obtain pr0 c0 where
    sc0: "scored tr d (?ps ! 0) = Inr (pr0, Float c0)" and c0: "0 \<le> c0"
    by blast
  have key0: "policy_key tr d (?ps ! 0) = Inr (Float c0, priority (?ps ! 0))"
    using sc0 by (simp add: policy_key_def)
  have beats: "key_above c0 (priority (?ps ! 0)) (-1) (-1)"
    using c0 by (simp add: key_above_def)
  have "\<not> (\<forall>j < length ?ps. \<forall>cj. policy_key tr d (?ps ! j) = Inr (Float cj, priority (?ps ! j)) \<longrightarrow>
                  \<not> key_above cj (priority (?ps ! j)) (-1) (-1))"
    using l0 key0 beats by blast
  with alt obtain k c where ch: "chosen tr d k (?ps ! k) b" and mb: "max_confidence b = Float c"
    by blast
  from ch mb obtain pr where sc: "scored tr d (?ps ! k) = Inr (pr, Float c)"
    and b: "b = \<lparr> result = Some pr, max_confidence = Float c,
              best_policy_name = Some (policy_name k (?ps ! k)),
              best_policy_priority = priority (?ps ! k) \<rparr>"
    unfolding chosen_def by auto
  from run sc b show ?thesis by blast
qed

lemma override_condition_defined:
  assumes "np_max pr = Inr (Float c)" and "ACTION_LISTEN_NAME K \<in> set (action_names d)"
  shows "\<exists>c'. override_condition K tr d
            \<lparr> result = Some pr, max_confidence = Float c, best_policy_name = Some n,
              best_policy_priority = q \<rparr> = Inr c'"
proof -
  from np_max_Float [OF assms(1)] have "Float c \<in> set pr" by simp
  from list_index_mem [OF this] obtain i where i: "float_index pr (Float c) = Some i"
    unfolding float_index_Float ..
  from index_for_action_mem [OF assms(2)] obtain l where
    "index_for_action d (ACTION_LISTEN_NAME K) = Inr l \<and> l < num_actions d" ..
  then have l: "index_for_action d (ACTION_LISTEN_NAME K) = Inr l" ..
  show ?thesis
    by (simp add: override_condition_def i l)
qed

lemma best_policy_unfold:
  assumes "best_policy_loop tr d (enumerate 0 (policies ens)) initial_best = Inr b"
    and "override_condition K tr d b = Inr c'"
  shows "probabilities_using_best_policy K ens tr d =
           (if c' then
              (case fallback_idx_policy ens of
                 [] \<Rightarrow> Inr (result b, best_policy_name b)
               | (fallback_idx, fallback_policy) # _ \<Rightarrow>
                   (case fallback_scores fallback_policy d of
                      Inl e \<Rightarrow> Inl e
                    | Inr scores \<Rightarrow>
                        Inr (Some scores, Some (policy_name fallback_idx fallback_policy))))
            else Inr (result b, best_policy_name b))"
  by (cases c') (simp_all add: probabilities_using_best_policy_def assms)

lemma contract_returns:
  assumes rej: "events tr \<noteq> []" "last (events tr) = ActionExecutionRejected X"
    and dom: "index_for_action d X = Inr idx"
    and wf: "respects_contract K ens tr d"
  shows "\<exists>probs nm. probabilities_using_best_policy K ens tr d = Inr (Some probs, Some nm)"
proof -
  from wf have listen: "ACTION_LISTEN_NAME K \<in> set (action_names d)"
    and fbs: "\<forall>p \<in> set (policies ens). is_FallbackPolicy p \<longrightarrow> fallback_action_name p \<in> set (action_names d)"
    unfolding respects_contract_def by simp_all
  from contract_loop [OF rej dom wf] obtain b k pr c where
    run: "best_policy_loop tr d (enumerate 0 (policies ens)) initial_best = Inr b" and
    sc: "scored tr d (policies ens ! k) = Inr (pr, Float c)" and
    b: "b = \<lparr> result = Some pr, max_confidence = Float c,
              best_policy_name = Some (policy_name k (policies ens ! k)),
              best_policy_priority = priority (policies ens ! k) \<rparr>"
    by blast
  from scored_rejected [OF rej dom sc] have mx: "np_max pr = Inr (Float c)" by blast
  from override_condition_defined [OF mx listen] obtain c' where
    cond: "override_condition K tr d b = Inr c'"
    unfolding b by blast
  have resb: "result b = Some pr" and nmb: "best_policy_name b = Some (policy_name k (policies ens ! k))"
    unfolding b by simp_all
  note unf = best_policy_unfold [OF run cond]
  show ?thesis
  proof (cases "c' \<and> fallback_idx_policy ens \<noteq> []")
    case False
    then have "probabilities_using_best_policy K ens tr d = Inr (result b, best_policy_name b)"
      unfolding unf by (cases "fallback_idx_policy ens") auto
    then show ?thesis unfolding resb nmb by blast
  next
    case True
    then obtain ip rest where cons: "fallback_idx_policy ens = ip # rest"
      by (cases "fallback_idx_policy ens") auto
    obtain fi fp where ip: "ip = (fi, fp)" by (cases ip)
    from cons ip have "(fi, fp) \<in> set (fallback_idx_policy ens)" by simp
    from fallback_idx_policy_mem [OF this] fbs have "fallback_action_name fp \<in> set (action_names d)"
      by blast
    from index_for_action_mem [OF this] obtain fidx where
      "index_for_action d (fallback_action_name fp) = Inr fidx"
      by blast
    then have "fallback_scores fp d = Inr ((replicate (num_actions d) (Float 0))[fidx := Float 1])"
      by (simp add: fallback_scores_def)
    with True cons ip have "probabilities_using_best_policy K ens tr d =
        Inr (Some ((replicate (num_actions d) (Float 0))[fidx := Float 1]), Some (policy_name fi fp))"
      unfolding unf by simp
    then show ?thesis by blast
  qed
qed

text \<open>The winner of the arbitration, when the override does not replace it.\<close>

lemma winner_is_chosen:
  assumes ok: "\<forall>p \<in> set (policies ens). \<exists>x. scored tr d p = Inr x"
    and win: "first_maximal tr d (policies ens) k"
    and sc: "scored tr d (policies ens ! k) = Inr (probabilities, Float confidence)"
    and base: "-1 < confidence \<or> (confidence = -1 \<and> -1 < priority (policies ens ! k))"
  shows "best_policy_loop tr d (enumerate 0 (policies ens)) initial_best =
           Inr \<lparr> result = Some probabilities, max_confidence = Float confidence,
                 best_policy_name = Some (policy_name k (policies ens ! k)),
                 best_policy_priority = priority (policies ens ! k) \<rparr>"
proof -
  let ?ps = "policies ens"
  from loop_from_start [OF ok] obtain b where
    run: "best_policy_loop tr d (enumerate 0 ?ps) initial_best = Inr b"
    and alt: "(b = initial_best \<and>
             (\<forall>j < length ?ps. \<forall>cj. policy_key tr d (?ps ! j) = Inr (Float cj, priority (?ps ! j)) \<longrightarrow>
                  \<not> key_above cj (priority (?ps ! j)) (-1) (-1)))
            \<or> (\<exists>k c. first_maximal tr d ?ps k \<and> chosen tr d k (?ps ! k) b \<and>
                     max_confidence b = Float c \<and> key_above c (priority (?ps ! k)) (-1) (-1))"
    by blast
  from win have klen: "k < length ?ps" by (simp add: first_maximal_def)
  have key: "policy_key tr d (?ps ! k) = Inr (Float confidence, priority (?ps ! k))"
    using sc by (simp add: policy_key_def)
  have above: "key_above confidence (priority (?ps ! k)) (-1) (-1)"
    using base by (auto simp: key_above_def)
  have "\<not> (\<forall>j < length ?ps. \<forall>cj. policy_key tr d (?ps ! j) = Inr (Float cj, priority (?ps ! j)) \<longrightarrow>
                  \<not> key_above cj (priority (?ps ! j)) (-1) (-1))"
    using klen key above by blast
  with alt obtain k' where fm: "first_maximal tr d ?ps k'" and ch: "chosen tr d k' (?ps ! k') b"
    by blast
  from first_maximal_unique [OF fm win] have "k' = k" .
  with ch sc have "b = \<lparr> result = Some probabilities, max_confidence = Float confidence,
              best_policy_name = Some (policy_name k (?ps ! k)),
              best_policy_priority = priority (?ps ! k) \<rparr>"
    by (simp add: chosen_def)
  with run show ?thesis by simp
qed

lemma digit_char_not_underscore: "n < 10 \<Longrightarrow> digit_char n \<noteq> CHR ''_''"
proof -
  assume "n < 10"
  then have "n < length ''0123456789''" by simp
  then have "''0123456789'' ! n \<in> set ''0123456789''" by (rule nth_mem)
  moreover have "CHR ''_'' \<notin> set ''0123456789''" by simp
  ultimately show ?thesis unfolding digit_char_def by metis
qed

lemma digit_char_inj: "n < 10 \<Longrightarrow> m < 10 \<Longrightarrow> digit_char n = digit_char m \<Longrightarrow> n = m"
proof -
  assume "n < 10" "m < 10" and eq: "digit_char n = digit_char m"
  have d: "distinct ''0123456789''" by simp
  have "length ''0123456789'' = 10" by simp
  with \<open>n < 10\<close> \<open>m < 10\<close> have "n < length ''0123456789''" "m < length ''0123456789''" by simp_all
  with d eq show "n = m"
    unfolding digit_char_def by (simp only: nth_eq_iff_index_eq)
qed

lemma str_nat_no_underscore: "CHR ''_'' \<notin> set (str_nat n)"
proof (induction n rule: str_nat.induct)
  case (1 n)
  show ?case
  proof (cases "n < 10")
    case True
    then show ?thesis
      using digit_char_not_underscore [of n] by (simp add: str_nat_digit)
  next
    case False
    have "n mod 10 < 10" by simp
    from digit_char_not_underscore [OF this] "1.IH" [OF False] False show ?thesis
      by (simp add: str_nat.simps [of n])
  qed
qed

lemma str_nat_nonempty: "str_nat n \<noteq> []"
  by (simp add: str_nat.simps [of n])

lemma str_nat_inj: "str_nat n = str_nat m \<Longrightarrow> n = m"
proof (induction n arbitrary: m rule: str_nat.induct)
  case (1 n)
  show ?case
  proof (cases "n < 10")
    case n: True
    show ?thesis
    proof (cases "m < 10")
      case True
      have "str_nat n = [digit_char n]" "str_nat m = [digit_char m]"
        using n True by (simp_all add: str_nat.simps [of n] str_nat.simps [of m])
      with "1.prems" have "digit_char n = digit_char m" by simp
      with n True show ?thesis by (rule digit_char_inj)
    next
      case False
      have "str_nat n = [digit_char n]" using n by (simp add: str_nat.simps [of n])
      moreover have "str_nat m = str_nat (m div 10) @ [digit_char (m mod 10)]"
        using False by (simp add: str_nat.simps [of m])
      ultimately have "str_nat (m div 10) = []" using "1.prems" by simp
      with str_nat_nonempty show ?thesis by blast
    qed
  next
    case n: False
    have en: "str_nat n = str_nat (n div 10) @ [digit_char (n mod 10)]"
      using n by (simp add: str_nat.simps [of n])
    show ?thesis
    proof (cases "m < 10")
      case True
      have "str_nat m = [digit_char m]" using True by (simp add: str_nat.simps [of m])
      with en "1.prems" have "str_nat (n div 10) = []" by simp
      with str_nat_nonempty show ?thesis by blast
    next
      case False
      have "str_nat m = str_nat (m div 10) @ [digit_char (m mod 10)]"
        using False by (simp add: str_nat.simps [of m])
      with en "1.prems" have a: "str_nat (n div 10) = str_nat (m div 10)"
        and b: "digit_char (n mod 10) = digit_char (m mod 10)" by simp_all
      from "1.IH" [OF n a] have "n div 10 = m div 10" .
      moreover have "n mod 10 = m mod 10"
        by (rule digit_char_inj [OF _ _ b]) simp_all
      ultimately show ?thesis by (metis div_mult_mod_eq)
    qed
  qed
qed

lemma policy_name_index: "policy_name i p = policy_name k q \<Longrightarrow> i = k"
proof -
  assume "policy_name i p = policy_name k q"
  then have eq: "str_nat i @ CHR ''_'' # class_name p = str_nat k @ CHR ''_'' # class_name q"
    by (simp add: policy_name_def)
  have "takeWhile (\<lambda>c. c \<noteq> CHR ''_'') (str_nat i @ CHR ''_'' # class_name p) = str_nat i"
    using str_nat_no_underscore [of i] by (auto simp: takeWhile_tail)
  moreover have "takeWhile (\<lambda>c. c \<noteq> CHR ''_'') (str_nat k @ CHR ''_'' # class_name q) = str_nat k"
    using str_nat_no_underscore [of k] by (auto simp: takeWhile_tail)
  ultimately have "str_nat i = str_nat k" using eq by simp
  then show "i = k" by (rule str_nat_inj)
qed

subsection \<open>The example configuration, evaluated\<close>

lemmas example_defs = example_constants_def example_domain_def example_keras_def example_sklearn_def
  example_fallback_def example_rejected_tracker_def example_listening_tracker_def

lemma ex_scored_keras_rej:
  "scored example_rejected_tracker example_domain example_keras
     = Inr (map Float [0.8, 0.05, 0, 0, 0.05], Float 0.8)"
  by (simp add: example_defs scored_def zero_rejected_def index_for_action_def)

lemma ex_scored_fb_rej:
  "scored example_rejected_tracker example_domain example_fallback
     = Inr (map Float [0, 0, 0, 0, 0], Float 0)"
  by (simp add: example_defs scored_def zero_rejected_def index_for_action_def)

lemma ex_name0: "policy_name 0 example_keras = ''policy_0_KerasPolicy''"
  by (simp add: policy_name_def example_keras_def str_nat_digit digit_char_def)

lemma ex_name1: "policy_name (Suc 0) example_fallback = ''policy_1_FallbackPolicy''"
  by (simp add: policy_name_def example_fallback_def str_nat_digit digit_char_def)

lemma ex_fields [simp]:
  "priority example_keras = 1" "priority example_fallback = 4" "priority example_sklearn = 1"
  "priority example_memo = 3" "priority example_form = 5" "priority example_custom = 5"
  "priority example_listen_fallback = 4" "priority example_nan = 1"
  "\<not> is_FallbackPolicy example_keras" "is_FallbackPolicy example_fallback"
  "\<not> is_FallbackPolicy example_sklearn" "\<not> is_FallbackPolicy example_memo"
  "\<not> is_FallbackPolicy example_form" "\<not> is_FallbackPolicy example_custom"
  "is_FallbackPolicy example_listen_fallback" "\<not> is_FallbackPolicy example_nan"
  by (simp_all add: example_keras_def example_fallback_def example_sklearn_def example_memo_def
      example_form_def example_custom_def example_listen_fallback_def example_nan_def)

lemma ex_not_memo: "is_not_memo_policy ''policy_0_KerasPolicy''"
  by (simp add: is_not_memo_policy_def endswith_def)

lemma ex_memo: "\<not> is_not_memo_policy ''policy_0_MemoizationPolicy''"
  by (simp add: is_not_memo_policy_def endswith_def)

text \<open>
  C1 as stated fails. The tracker ends in the rejection of \<open>action_custom_fallback\<close>,
  the latest action is the listen action, \<open>KerasPolicy\<close> wins with its maximum at
  the listen action, and the fallback policy's fallback action is the rejected action:
  the override returns the fallback distribution, which has probability 1 at the
  rejected action's index 3.
\<close>

theorem rejected_action_survives_override:
  "probabilities_using_best_policy example_constants
       \<lparr> policies = [example_keras, example_fallback] \<rparr> example_rejected_tracker example_domain
     = Inr (Some (map Float [0, 0, 0, 1, 0]), Some ''policy_1_FallbackPolicy'')
   \<and> last (events example_rejected_tracker) = ActionExecutionRejected ''action_custom_fallback''
   \<and> index_for_action example_domain ''action_custom_fallback'' = Inr 3
   \<and> map Float [0, 0, 0, 1, 0] ! 3 = Float 1
   \<and> Float 1 \<noteq> Float 0"
proof -
  have loop: "best_policy_loop example_rejected_tracker example_domain
          (enumerate 0 [example_keras, example_fallback]) initial_best
        = Inr \<lparr> result = Some (map Float [0.8, 0.05, 0, 0, 0.05]), max_confidence = Float 0.8,
                best_policy_name = Some ''policy_0_KerasPolicy'', best_policy_priority = 1 \<rparr>"
    by (simp add: ex_scored_keras_rej ex_scored_fb_rej ex_name0 initial_best_def tuple_gt_def)
  have cond: "override_condition example_constants example_rejected_tracker example_domain
          \<lparr> result = Some (map Float [0.8, 0.05, 0, 0, 0.05]), max_confidence = Float 0.8,
                best_policy_name = Some ''policy_0_KerasPolicy'', best_policy_priority = 1 \<rparr> = Inr True"
    by (simp add: override_condition_def ex_not_memo index_for_action_def example_defs)
  have fb: "fallback_idx_policy \<lparr> policies = [example_keras, example_fallback] \<rparr> = [(1, example_fallback)]"
    by (simp add: fallback_idx_policy_def)
  have sc: "fallback_scores example_fallback example_domain = Inr (map Float [0, 0, 0, 1, 0])"
    by (simp add: fallback_scores_def index_for_action_def num_actions_def example_defs)
  have idx: "index_for_action example_domain ''action_custom_fallback'' = Inr 3"
    by (simp add: index_for_action_def example_domain_def)
  have lst: "last (events example_rejected_tracker) = ActionExecutionRejected ''action_custom_fallback''"
    by (simp add: example_rejected_tracker_def)
  show ?thesis
    using loop cond fb sc idx lst
    by (simp add: probabilities_using_best_policy_def ex_name1)
qed

text \<open>
  A prediction with a NaN in it never wins: its maximum is NaN, and the comparison of
  its key with the running best answers \<open>False\<close>. An ensemble of such a policy alone
  returns \<open>(None, None)\<close>, also after a rejection.
\<close>

lemma nan_prediction_never_wins:
  "scored example_rejected_tracker example_domain example_nan
     = Inr ([Float 0.5, NaN, Float 0, Float 0, Float 0], NaN)
   \<and> probabilities_using_best_policy example_constants
        \<lparr> policies = [example_nan] \<rparr> example_rejected_tracker example_domain
       = Inr (None, None)
   \<and> probabilities_using_best_policy example_constants
        \<lparr> policies = [example_nan, example_sklearn] \<rparr> example_listening_tracker example_domain
       = Inr (Some (map Float [0.1, 0, 0, 0.1, 0.8]), Some ''policy_1_SklearnPolicy'')"
proof -
  have s: "scored example_rejected_tracker example_domain example_nan
     = Inr ([Float 0.5, NaN, Float 0, Float 0, Float 0], NaN)"
    by (simp add: example_defs example_nan_def scored_def zero_rejected_def index_for_action_def)
  have s': "scored example_listening_tracker example_domain example_nan
     = Inr ([Float 0.5, NaN, Float 0, Float 0.1, Float 0], NaN)"
    "scored example_listening_tracker example_domain example_sklearn
     = Inr (map Float [0.1, 0, 0, 0.1, 0.8], Float 0.8)"
    by (simp_all add: example_defs example_nan_def scored_def zero_rejected_def)
  have n: "policy_name (Suc 0) example_sklearn = ''policy_1_SklearnPolicy''"
    by (simp add: policy_name_def example_sklearn_def str_nat_digit digit_char_def)
  have a: "probabilities_using_best_policy example_constants
        \<lparr> policies = [example_nan] \<rparr> example_rejected_tracker example_domain = Inr (None, None)"
    by (simp add: probabilities_using_best_policy_def s tuple_gt_def initial_best_def
        override_condition_def)
  have loop: "best_policy_loop example_listening_tracker example_domain
        (enumerate 0 (policies \<lparr> policies = [example_nan, example_sklearn] \<rparr>)) initial_best
       = Inr \<lparr> result = Some (map Float [0.1, 0, 0, 0.1, 0.8]), max_confidence = Float 0.8,
               best_policy_name = Some ''policy_1_SklearnPolicy'', best_policy_priority = 1 \<rparr>"
    by (simp add: s' n initial_best_def tuple_gt_def)
  have cond: "override_condition example_constants example_listening_tracker example_domain
        \<lparr> result = Some (map Float [0.1, 0, 0, 0.1, 0.8]), max_confidence = Float 0.8,
               best_policy_name = Some ''policy_1_SklearnPolicy'', best_policy_priority = 1 \<rparr>
       = Inr False"
    by (simp add: override_condition_def index_for_action_def example_domain_def
        example_constants_def)
  have b: "probabilities_using_best_policy example_constants
        \<lparr> policies = [example_nan, example_sklearn] \<rparr> example_listening_tracker example_domain
       = Inr (Some (map Float [0.1, 0, 0, 0.1, 0.8]), Some ''policy_1_SklearnPolicy'')"
    unfolding best_policy_unfold [OF loop cond] by simp
  from s a b show ?thesis by blast
qed

subsection \<open>The claims about the arbitration\<close>

text \<open>
  C1, as amended. Let the tracker's last event be the rejection of action \<open>X\<close>, and
  let \<open>X\<close> be an action of the domain, at index \<open>idx\<close>. Whenever
  \<open>probabilities_using_best_policy\<close> returns a distribution, the index is within
  it, and the probability there is 0, whatever the policies predicted, with one
  exception: when the fallback override fires and the first fallback policy's fallback
  action is \<open>X\<close> itself, the fallback distribution is returned as it is, with
  probability 1 at \<open>X\<close>. The call does return a distribution when the ensemble is
  not empty, every prediction has one entry per action and no NaN among its entries,
  and the listen action and the fallback actions are actions of the domain
  (\<open>respects_contract\<close>).
\<close>

theorem rejected_action_zero_unless_fallback_override:
  assumes rej: "events tr \<noteq> []" "last (events tr) = ActionExecutionRejected X"
    and dom: "index_for_action d X = Inr idx"
  shows "(\<forall>probs nm. probabilities_using_best_policy K ens tr d = Inr (Some probs, nm) \<longrightarrow>
            idx < length probs \<and>
            probs ! idx =
              (if override_fires K ens tr d \<and>
                  fallback_action_name (snd (hd (fallback_idx_policy ens))) = X
               then Float 1 else Float 0))
       \<and> (respects_contract K ens tr d \<longrightarrow>
            (\<exists>probs nm. probabilities_using_best_policy K ens tr d = Inr (Some probs, Some nm)))"
proof (rule conjI)
  show "\<forall>probs nm. probabilities_using_best_policy K ens tr d = Inr (Some probs, nm) \<longrightarrow>
            idx < length probs \<and>
            probs ! idx =
              (if override_fires K ens tr d \<and>
                  fallback_action_name (snd (hd (fallback_idx_policy ens))) = X
               then Float 1 else Float 0)"
  proof (intro allI impI)
    fix probs nm
    assume "probabilities_using_best_policy K ens tr d = Inr (Some probs, nm)"
    then show "idx < length probs \<and>
            probs ! idx =
              (if override_fires K ens tr d \<and>
                  fallback_action_name (snd (hd (fallback_idx_policy ens))) = X
               then Float 1 else Float 0)"
    proof (cases rule: returned_cases)
      case (plain b)
      from plain(3) have "result b = Some probs" by simp
      from loop_result_rejected [OF rej dom plain(1) this] plain(2) show ?thesis by simp
    next
      case (override b i fp rest scores)
      from override(5) have eq: "probs = scores" by simp
      from override(3) have hd: "snd (hd (fallback_idx_policy ens)) = fp" by simp
      from fallback_scores_nth [OF override(4) dom] override(2) show ?thesis
        unfolding eq hd by simp
    qed
  qed
next
  show "respects_contract K ens tr d \<longrightarrow>
            (\<exists>probs nm. probabilities_using_best_policy K ens tr d = Inr (Some probs, Some nm))"
    using contract_returns [OF rej dom] by blast
qed

lemma ex_scored_sklearn_rej:
  "scored example_rejected_tracker example_domain example_sklearn
     = Inr (map Float [0.1, 0, 0, 0, 0.8], Float 0.8)"
  by (simp add: example_defs scored_def zero_rejected_def index_for_action_def)

lemma ex_rejected_two:
  "probabilities_using_best_policy example_constants
       \<lparr> policies = [example_keras, example_sklearn] \<rparr> example_rejected_tracker example_domain
     = Inr (Some (map Float [0.8, 0.05, 0, 0, 0.05]), Some ''policy_0_KerasPolicy'')"
proof -
  have loop: "best_policy_loop example_rejected_tracker example_domain
          (enumerate 0 (policies \<lparr> policies = [example_keras, example_sklearn] \<rparr>)) initial_best
        = Inr \<lparr> result = Some (map Float [0.8, 0.05, 0, 0, 0.05]), max_confidence = Float 0.8,
                best_policy_name = Some ''policy_0_KerasPolicy'', best_policy_priority = 1 \<rparr>"
    by (simp add: ex_scored_keras_rej ex_scored_sklearn_rej ex_name0 initial_best_def tuple_gt_def)
  have cond: "override_condition example_constants example_rejected_tracker example_domain
          \<lparr> result = Some (map Float [0.8, 0.05, 0, 0, 0.05]), max_confidence = Float 0.8,
                best_policy_name = Some ''policy_0_KerasPolicy'', best_policy_priority = 1 \<rparr> = Inr True"
    by (simp add: override_condition_def ex_not_memo index_for_action_def example_defs)
  have fb: "fallback_idx_policy \<lparr> policies = [example_keras, example_sklearn] \<rparr> = []"
    by (simp add: fallback_idx_policy_def)
  show ?thesis
    unfolding best_policy_unfold [OF loop cond] fb by simp
qed

lemma ex_contract_two:
  "respects_contract example_constants \<lparr> policies = [example_keras, example_sklearn] \<rparr>
     example_rejected_tracker example_domain"
  by (simp add: respects_contract_def num_actions_def example_defs)

text \<open>
  The theorem at the example: two policies without a fallback policy, the tracker
  ending in the rejection of \<open>action_custom_fallback\<close> (index 3). The winner
  predicted 0.1 there; the returned distribution has 0.
\<close>

theorem rejected_action_zero_witness:
  "events example_rejected_tracker \<noteq> []
   \<and> last (events example_rejected_tracker) = ActionExecutionRejected ''action_custom_fallback''
   \<and> index_for_action example_domain ''action_custom_fallback'' = Inr 3
   \<and> respects_contract example_constants \<lparr> policies = [example_keras, example_sklearn] \<rparr>
        example_rejected_tracker example_domain
   \<and> predict_action_probabilities example_keras example_rejected_tracker example_domain ! 3
       = Float 0.1
   \<and> probabilities_using_best_policy example_constants
        \<lparr> policies = [example_keras, example_sklearn] \<rparr> example_rejected_tracker example_domain
       = Inr (Some (map Float [0.8, 0.05, 0, 0, 0.05]), Some ''policy_0_KerasPolicy'')
   \<and> map Float [0.8, 0.05, 0, 0, 0.05] ! 3
       = (if override_fires example_constants \<lparr> policies = [example_keras, example_sklearn] \<rparr>
               example_rejected_tracker example_domain
             \<and> fallback_action_name (snd (hd (fallback_idx_policy
                   \<lparr> policies = [example_keras, example_sklearn] \<rparr>))) = ''action_custom_fallback''
          then Float 1 else Float 0)"
proof -
  have e: "events example_rejected_tracker \<noteq> []"
    and l: "last (events example_rejected_tracker) = ActionExecutionRejected ''action_custom_fallback''"
    by (simp_all add: example_rejected_tracker_def)
  have i: "index_for_action example_domain ''action_custom_fallback'' = Inr 3"
    by (simp add: index_for_action_def example_domain_def)
  have raw: "predict_action_probabilities example_keras example_rejected_tracker example_domain ! 3
      = Float 0.1"
    by (simp add: example_keras_def)
  from rejected_action_zero_unless_fallback_override [OF e l i, of example_constants
      "\<lparr> policies = [example_keras, example_sklearn] \<rparr>"]
    ex_rejected_two ex_contract_two e l i raw
  show ?thesis by blast
qed

text \<open>
  C3. When no policy's prediction raises, the loop of
  \<open>probabilities_using_best_policy\<close> over the policies in their configured order
  ends with a running best that is either the initial one, when no policy has a key
  \<open>(max(distribution), priority)\<close> above the initial \<open>(-1, -1)\<close>, or what policy
  \<open>k\<close> contributed. The maximum \<open>c\<close> of policy \<open>k\<close> is a number, and every
  policy \<open>j\<close> whose maximum \<open>cj\<close> is a number has a smaller maximum, or the same
  maximum and a smaller priority, or the same maximum and the same priority and comes
  at \<open>k\<close> or later: among the policies that tie on both, the earliest wins. (A
  policy whose maximum is NaN never wins.) That running best is what the call returns
  when the override does not apply.
\<close>

theorem winner_has_first_maximal_key:
  assumes "\<forall>p \<in> set (policies ens). \<exists>x. scored tr d p = Inr x"
  shows "\<exists>b. best_policy_loop tr d (enumerate 0 (policies ens)) initial_best = Inr b \<and>
           ((b = initial_best \<and>
             (\<forall>j < length (policies ens). \<forall>cj.
                 policy_key tr d (policies ens ! j) = Inr (Float cj, priority (policies ens ! j)) \<longrightarrow>
                   cj < -1 \<or> (cj = -1 \<and> priority (policies ens ! j) \<le> -1)))
            \<or> (\<exists>k c. k < length (policies ens) \<and> chosen tr d k (policies ens ! k) b \<and>
                   max_confidence b = Float c \<and>
                   (-1 < c \<or> (c = -1 \<and> -1 < priority (policies ens ! k))) \<and>
                   (\<forall>j < length (policies ens). \<forall>cj.
                       policy_key tr d (policies ens ! j) = Inr (Float cj, priority (policies ens ! j)) \<longrightarrow>
                         cj < c
                         \<or> (cj = c \<and> priority (policies ens ! j) < priority (policies ens ! k))
                         \<or> (cj = c \<and> priority (policies ens ! j) = priority (policies ens ! k)
                            \<and> k \<le> j))))
           \<and> (override_condition K tr d b = Inr False \<longrightarrow>
                probabilities_using_best_policy K ens tr d = Inr (result b, best_policy_name b))"
proof -
  let ?ps = "policies ens"
  from loop_from_start [OF assms] obtain b where
    run: "best_policy_loop tr d (enumerate 0 ?ps) initial_best = Inr b"
    and alt: "(b = initial_best \<and>
             (\<forall>j < length ?ps. \<forall>cj. policy_key tr d (?ps ! j) = Inr (Float cj, priority (?ps ! j)) \<longrightarrow>
                  \<not> key_above cj (priority (?ps ! j)) (-1) (-1)))
            \<or> (\<exists>k c. first_maximal tr d ?ps k \<and> chosen tr d k (?ps ! k) b \<and>
                     max_confidence b = Float c \<and> key_above c (priority (?ps ! k)) (-1) (-1))"
    by blast
  have plain: "override_condition K tr d b = Inr False \<longrightarrow>
                probabilities_using_best_policy K ens tr d = Inr (result b, best_policy_name b)"
  proof
    assume "override_condition K tr d b = Inr False"
    from best_policy_unfold [OF run this]
    show "probabilities_using_best_policy K ens tr d = Inr (result b, best_policy_name b)"
      by simp
  qed
  from alt have "(b = initial_best \<and>
             (\<forall>j < length ?ps. \<forall>cj.
                 policy_key tr d (?ps ! j) = Inr (Float cj, priority (?ps ! j)) \<longrightarrow>
                   cj < -1 \<or> (cj = -1 \<and> priority (?ps ! j) \<le> -1)))
            \<or> (\<exists>k c. k < length ?ps \<and> chosen tr d k (?ps ! k) b \<and>
                   max_confidence b = Float c \<and>
                   (-1 < c \<or> (c = -1 \<and> -1 < priority (?ps ! k))) \<and>
                   (\<forall>j < length ?ps. \<forall>cj.
                       policy_key tr d (?ps ! j) = Inr (Float cj, priority (?ps ! j)) \<longrightarrow>
                         cj < c
                         \<or> (cj = c \<and> priority (?ps ! j) < priority (?ps ! k))
                         \<or> (cj = c \<and> priority (?ps ! j) = priority (?ps ! k) \<and> k \<le> j)))"
  proof (elim disjE conjE exE)
    assume eq: "b = initial_best"
      and none: "\<forall>j < length ?ps. \<forall>cj. policy_key tr d (?ps ! j) = Inr (Float cj, priority (?ps ! j)) \<longrightarrow>
                  \<not> key_above cj (priority (?ps ! j)) (-1) (-1)"
    have "\<forall>j < length ?ps. \<forall>cj.
                 policy_key tr d (?ps ! j) = Inr (Float cj, priority (?ps ! j)) \<longrightarrow>
                   cj < -1 \<or> (cj = -1 \<and> priority (?ps ! j) \<le> -1)"
    proof (intro allI impI)
      fix j cj
      assume "j < length ?ps" "policy_key tr d (?ps ! j) = Inr (Float cj, priority (?ps ! j))"
      with none have "\<not> key_above cj (priority (?ps ! j)) (-1) (-1)" by blast
      then show "cj < -1 \<or> (cj = -1 \<and> priority (?ps ! j) \<le> -1)"
        by (auto simp: key_above_def)
    qed
    with eq show ?thesis by blast
  next
    fix k c
    assume fm: "first_maximal tr d ?ps k" and ch: "chosen tr d k (?ps ! k) b"
      and mb: "max_confidence b = Float c" and above: "key_above c (priority (?ps ! k)) (-1) (-1)"
    from chosen_key [OF ch] mb have key: "policy_key tr d (?ps ! k) = Inr (Float c, priority (?ps ! k))"
      by simp
    from fm key have "k < length ?ps"
      and "\<forall>j < length ?ps. \<forall>cj.
                       policy_key tr d (?ps ! j) = Inr (Float cj, priority (?ps ! j)) \<longrightarrow>
                         cj < c
                         \<or> (cj = c \<and> priority (?ps ! j) < priority (?ps ! k))
                         \<or> (cj = c \<and> priority (?ps ! j) = priority (?ps ! k) \<and> k \<le> j)"
      unfolding first_maximal_def by auto
    moreover from above have "-1 < c \<or> (c = -1 \<and> -1 < priority (?ps ! k))"
      by (auto simp: key_above_def)
    ultimately show ?thesis using ch mb by blast
  qed
  with run plain show ?thesis by blast
qed

lemma ex_scored_listening:
  "scored example_listening_tracker example_domain example_keras
     = Inr (map Float [0.8, 0.05, 0, 0.1, 0.05], Float 0.8)"
  "scored example_listening_tracker example_domain example_sklearn
     = Inr (map Float [0.1, 0, 0, 0.1, 0.8], Float 0.8)"
  "scored example_listening_tracker example_domain example_fallback
     = Inr (map Float [0, 0, 0, 0.3, 0], Float 0.3)"
  "scored example_listening_tracker example_domain example_memo
     = Inr (map Float [0, 0, 0, 0, 1], Float 1)"
  "scored example_listening_tracker example_domain example_form
     = Inr (map Float [0, 1, 0, 0, 0], Float 1)"
  "scored example_listening_tracker example_domain example_custom
     = Inr (map Float [0, 0, 0, 1, 0], Float 1)"
  "scored example_listening_tracker example_domain example_listen_fallback
     = Inr (map Float [1, 0, 0, 0, 0], Float 1)"
  by (simp_all add: example_defs example_memo_def example_form_def example_custom_def
      example_listen_fallback_def scored_def zero_rejected_def)

lemma ex_name2: "policy_name (Suc (Suc 0)) example_form = ''policy_2_FormPolicy''"
proof -
  have "str_nat (Suc (Suc 0)) = ''2''"
    using str_nat_digit [of 2] by (simp add: digit_char_def numeral_2_eq_2)
  then show ?thesis by (simp add: policy_name_def example_form_def)
qed

text \<open>
  The theorem at an example: four policies, in this order, with the keys
  \<open>(0.8, 1)\<close>, \<open>(1, 3)\<close>, \<open>(1, 5)\<close> and \<open>(1, 5)\<close>. The second beats the
  first by its maximum, the third beats the second by its priority alone, and the fourth,
  which ties with the third on both, does not replace it: the policy at index 2 wins.
\<close>

theorem winner_has_first_maximal_key_witness:
  "policy_key example_listening_tracker example_domain example_keras = Inr (Float 0.8, 1)
   \<and> policy_key example_listening_tracker example_domain example_memo = Inr (Float 1, 3)
   \<and> policy_key example_listening_tracker example_domain example_form = Inr (Float 1, 5)
   \<and> policy_key example_listening_tracker example_domain example_custom = Inr (Float 1, 5)
   \<and> best_policy_loop example_listening_tracker example_domain
        (enumerate 0 [example_keras, example_memo, example_form, example_custom]) initial_best
       = Inr \<lparr> result = Some (map Float [0, 1, 0, 0, 0]), max_confidence = Float 1,
               best_policy_name = Some ''policy_2_FormPolicy'', best_policy_priority = 5 \<rparr>
   \<and> probabilities_using_best_policy example_constants
        \<lparr> policies = [example_keras, example_memo, example_form, example_custom] \<rparr>
        example_listening_tracker example_domain
       = Inr (Some (map Float [0, 1, 0, 0, 0]), Some ''policy_2_FormPolicy'')"
proof -
  let ?E = "\<lparr> policies = [example_keras, example_memo, example_form, example_custom] \<rparr>"
  let ?T = example_listening_tracker
  let ?D = example_domain
  let ?b = "\<lparr> result = Some (map Float [0, 1, 0, 0, 0]), max_confidence = Float 1,
               best_policy_name = Some ''policy_2_FormPolicy'', best_policy_priority = 5 \<rparr>"
  have keys: "policy_key ?T ?D example_keras = Inr (Float 0.8, 1)"
    "policy_key ?T ?D example_memo = Inr (Float 1, 3)"
    "policy_key ?T ?D example_form = Inr (Float 1, 5)"
    "policy_key ?T ?D example_custom = Inr (Float 1, 5)"
    by (simp_all add: policy_key_def ex_scored_listening)
  have ok: "\<forall>p \<in> set (policies ?E). \<exists>x. scored ?T ?D p = Inr x"
  proof
    fix p assume "p \<in> set (policies ?E)"
    then have "p = example_keras \<or> p = example_memo \<or> p = example_form \<or> p = example_custom"
      by simp
    then show "\<exists>x. scored ?T ?D p = Inr x"
      using ex_scored_listening(1,4,5,6) by blast
  qed
  have loop: "best_policy_loop ?T ?D (enumerate 0 (policies ?E)) initial_best = Inr ?b"
    by (simp add: ex_scored_listening ex_name2 initial_best_def tuple_gt_def)
  have cond: "override_condition example_constants ?T ?D ?b = Inr False"
    by (simp add: override_condition_def index_for_action_def example_domain_def
        example_constants_def)
  from winner_has_first_maximal_key [OF ok, of example_constants] obtain b where
    b: "best_policy_loop ?T ?D (enumerate 0 (policies ?E)) initial_best = Inr b"
    and ret: "override_condition example_constants ?T ?D b = Inr False \<longrightarrow>
                probabilities_using_best_policy example_constants ?E ?T ?D
                  = Inr (result b, best_policy_name b)"
    by blast
  from b loop have "b = ?b" by simp
  with ret cond have "probabilities_using_best_policy example_constants ?E ?T ?D
      = Inr (Some (map Float [0, 1, 0, 0, 0]), Some ''policy_2_FormPolicy'')"
    by simp
  with keys loop show ?thesis by simp
qed

text \<open>
  C2 as stated fails. The tracker's latest action is the listen action; the winner is
  the policy at index 1, a \<open>FallbackPolicy\<close> whose fallback action is the listen
  action and whose prediction has its maximum at the listen action; its identifier is
  not one of the memoization family, and it is the first (and only) fallback policy of
  the ensemble. The override fires and returns the fallback distribution with the
  identifier of that fallback policy, which is the identifier of the original winner.
\<close>

theorem fallback_winner_keeps_identifier:
  "latest_action_name example_listening_tracker = Some (ACTION_LISTEN_NAME example_constants)
   \<and> index_for_action example_domain (ACTION_LISTEN_NAME example_constants) = Inr 0
   \<and> best_policy_loop example_listening_tracker example_domain
        (enumerate 0 [example_keras, example_listen_fallback]) initial_best
       = Inr \<lparr> result = Some (map Float [1, 0, 0, 0, 0]), max_confidence = Float 1,
               best_policy_name = Some ''policy_1_FallbackPolicy'', best_policy_priority = 4 \<rparr>
   \<and> float_index (map Float [1, 0, 0, 0, 0]) (Float 1) = Some 0
   \<and> is_not_memo_policy ''policy_1_FallbackPolicy''
   \<and> fallback_idx_policy \<lparr> policies = [example_keras, example_listen_fallback] \<rparr>
       = [(1, example_listen_fallback)]
   \<and> fallback_scores example_listen_fallback example_domain = Inr (map Float [1, 0, 0, 0, 0])
   \<and> probabilities_using_best_policy example_constants
        \<lparr> policies = [example_keras, example_listen_fallback] \<rparr>
        example_listening_tracker example_domain
       = Inr (Some (map Float [1, 0, 0, 0, 0]), Some ''policy_1_FallbackPolicy'')"
proof -
  have n1: "policy_name (Suc 0) example_listen_fallback = ''policy_1_FallbackPolicy''"
    by (simp add: policy_name_def example_listen_fallback_def str_nat_digit digit_char_def)
  have prev: "latest_action_name example_listening_tracker
      = Some (ACTION_LISTEN_NAME example_constants)"
    by (simp add: example_listening_tracker_def example_constants_def)
  have listen: "index_for_action example_domain (ACTION_LISTEN_NAME example_constants) = Inr 0"
    by (simp add: index_for_action_def example_domain_def example_constants_def)
  have loop: "best_policy_loop example_listening_tracker example_domain
        (enumerate 0 [example_keras, example_listen_fallback]) initial_best
       = Inr \<lparr> result = Some (map Float [1, 0, 0, 0, 0]), max_confidence = Float 1,
               best_policy_name = Some ''policy_1_FallbackPolicy'', best_policy_priority = 4 \<rparr>"
    by (simp add: ex_scored_listening n1 initial_best_def tuple_gt_def)
  have top: "float_index (map Float [1, 0, 0, 0, 0]) (Float 1) = Some 0"
    by simp
  have nm: "is_not_memo_policy ''policy_1_FallbackPolicy''"
    by (simp add: is_not_memo_policy_def endswith_def)
  have cond: "override_condition example_constants example_listening_tracker example_domain
          \<lparr> result = Some (map Float [1, 0, 0, 0, 0]), max_confidence = Float 1,
               best_policy_name = Some ''policy_1_FallbackPolicy'', best_policy_priority = 4 \<rparr>
        = Inr True"
    using listen prev nm by (simp add: override_condition_def)
  have fb: "fallback_idx_policy \<lparr> policies = [example_keras, example_listen_fallback] \<rparr>
       = [(1, example_listen_fallback)]"
    by (simp add: fallback_idx_policy_def)
  have sc: "fallback_scores example_listen_fallback example_domain = Inr (map Float [1, 0, 0, 0, 0])"
    by (simp add: fallback_scores_def index_for_action_def num_actions_def example_domain_def
        example_listen_fallback_def)
  have "probabilities_using_best_policy example_constants
        \<lparr> policies = [example_keras, example_listen_fallback] \<rparr>
        example_listening_tracker example_domain
       = Inr (Some (map Float [1, 0, 0, 0, 0]), Some ''policy_1_FallbackPolicy'')"
    using loop cond fb sc by (simp add: probabilities_using_best_policy_def n1)
  with prev listen loop top nm fb sc show ?thesis by blast
qed

text \<open>
  C2, as amended. Let the tracker's latest action be the listen action, let policy
  \<open>k\<close> win the arbitration (\<open>first_maximal\<close>, with a key above the initial
  \<open>(-1, -1)\<close>) with the first position of its maximum at the listen action's index,
  let its identifier not be one of the memoization family, and let \<open>i\<close> be the
  first fallback policy of the ensemble, with fallback distribution \<open>scores\<close>. Then
  \<open>probabilities_using_best_policy\<close> returns \<open>scores\<close> and the identifier of that
  fallback policy. This identifier is the winner's exactly when the winner is that
  fallback policy itself (\<open>i = k\<close>); in every other case it is not the winner's.
\<close>

theorem fallback_override_replaces_winner:
  assumes ok: "\<forall>p \<in> set (policies ens). \<exists>x. scored tr d p = Inr x"
    and win: "first_maximal tr d (policies ens) k"
    and sc: "scored tr d (policies ens ! k) = Inr (probabilities, Float confidence)"
    and base: "-1 < confidence \<or> (confidence = -1 \<and> -1 < priority (policies ens ! k))"
    and listen: "index_for_action d (ACTION_LISTEN_NAME K) = Inr l"
    and top: "float_index probabilities (Float confidence) = Some l"
    and prev: "latest_action_name tr = Some (ACTION_LISTEN_NAME K)"
    and nonmemo: "is_not_memo_policy (policy_name k (policies ens ! k))"
    and fb: "i < length (policies ens)" "is_FallbackPolicy (policies ens ! i)"
      "\<forall>j < i. \<not> is_FallbackPolicy (policies ens ! j)"
    and scores: "fallback_scores (policies ens ! i) d = Inr scores"
  shows "probabilities_using_best_policy K ens tr d
           = Inr (Some scores, Some (policy_name i (policies ens ! i)))
         \<and> (policy_name i (policies ens ! i) = policy_name k (policies ens ! k) \<longleftrightarrow> i = k)"
proof
  let ?ps = "policies ens"
  let ?b = "\<lparr> result = Some probabilities, max_confidence = Float confidence,
                 best_policy_name = Some (policy_name k (?ps ! k)),
                 best_policy_priority = priority (?ps ! k) \<rparr>"
  from winner_is_chosen [OF ok win sc base]
  have run: "best_policy_loop tr d (enumerate 0 ?ps) initial_best = Inr ?b" .
  have cond: "override_condition K tr d ?b = Inr True"
    by (simp add: override_condition_def top listen prev nonmemo)
  from first_fallback [OF fb] obtain rest where
    ffb: "fallback_idx_policy ens = (i, ?ps ! i) # rest" ..
  show "probabilities_using_best_policy K ens tr d
           = Inr (Some scores, Some (policy_name i (?ps ! i)))"
    unfolding best_policy_unfold [OF run cond] ffb by (simp add: scores)
next
  show "policy_name i (policies ens ! i) = policy_name k (policies ens ! k) \<longleftrightarrow> i = k"
    using policy_name_index by blast
qed

lemma ex_first_maximal:
  "first_maximal example_listening_tracker example_domain
     (policies \<lparr> policies = [example_keras, example_fallback] \<rparr>) 0"
proof -
  have keys: "policy_key example_listening_tracker example_domain example_keras = Inr (Float 0.8, 1)"
    "policy_key example_listening_tracker example_domain example_fallback = Inr (Float 0.3, 4)"
    by (simp_all add: policy_key_def ex_scored_listening)
  have "first_maximal example_listening_tracker example_domain (example_keras # [example_fallback]) 0"
  proof (rule first_maximal_head [where c = "0.8"])
    show "policy_key example_listening_tracker example_domain example_keras
        = Inr (Float 0.8, priority example_keras)"
      by (simp add: keys)
    have "\<not> key_above cj 4 0.8 1" if "Float cj = Float 0.3" for cj
    proof -
      from that have "cj = 0.3" by (simp only: pyfloat.inject)
      then show ?thesis by (simp add: key_above_def)
    qed
    then show "\<forall>j < length [example_fallback]. \<forall>cj.
        policy_key example_listening_tracker example_domain ([example_fallback] ! j)
          = Inr (Float cj, priority ([example_fallback] ! j)) \<longrightarrow>
        \<not> key_above cj (priority ([example_fallback] ! j)) 0.8 (priority example_keras)"
      by (simp add: keys del: pyfloat.inject)
  qed
  then show ?thesis by simp
qed

text \<open>
  The theorem at the example: \<open>KerasPolicy\<close> wins with 0.8 at the listen action
  after a user message, and the ensemble has a \<open>FallbackPolicy\<close> at index 1.
\<close>

theorem fallback_override_witness:
  "first_maximal example_listening_tracker example_domain
     (policies \<lparr> policies = [example_keras, example_fallback] \<rparr>) 0
   \<and> scored example_listening_tracker example_domain example_keras
       = Inr (map Float [0.8, 0.05, 0, 0.1, 0.05], Float 0.8)
   \<and> index_for_action example_domain (ACTION_LISTEN_NAME example_constants) = Inr 0
   \<and> float_index (map Float [0.8, 0.05, 0, 0.1, 0.05]) (Float 0.8) = Some 0
   \<and> latest_action_name example_listening_tracker = Some (ACTION_LISTEN_NAME example_constants)
   \<and> is_not_memo_policy (policy_name 0 example_keras)
   \<and> is_FallbackPolicy example_fallback
   \<and> fallback_scores example_fallback example_domain = Inr (map Float [0, 0, 0, 1, 0])
   \<and> probabilities_using_best_policy example_constants
        \<lparr> policies = [example_keras, example_fallback] \<rparr> example_listening_tracker example_domain
       = Inr (Some (map Float [0, 0, 0, 1, 0]), Some ''policy_1_FallbackPolicy'')
   \<and> ''policy_1_FallbackPolicy'' \<noteq> policy_name 0 example_keras"
proof -
  let ?E = "\<lparr> policies = [example_keras, example_fallback] \<rparr>"
  let ?T = example_listening_tracker
  let ?D = example_domain
  have ok: "\<forall>p \<in> set (policies ?E). \<exists>x. scored ?T ?D p = Inr x"
  proof
    fix p assume "p \<in> set (policies ?E)"
    then have "p = example_keras \<or> p = example_fallback" by simp
    then show "\<exists>x. scored ?T ?D p = Inr x"
      using ex_scored_listening(1,3) by blast
  qed
  have sc: "scored ?T ?D (policies ?E ! 0) = Inr (map Float [0.8, 0.05, 0, 0.1, 0.05], Float 0.8)"
    by (simp add: ex_scored_listening)
  have base: "-1 < (0.8 :: real) \<or> ((0.8 :: real) = -1 \<and> -1 < priority (policies ?E ! 0))"
    by simp
  have listen: "index_for_action ?D (ACTION_LISTEN_NAME example_constants) = Inr 0"
    by (simp add: index_for_action_def example_domain_def example_constants_def)
  have top: "float_index (map Float [0.8, 0.05, 0, 0.1, 0.05]) (Float 0.8) = Some 0"
    by simp
  have prev: "latest_action_name ?T = Some (ACTION_LISTEN_NAME example_constants)"
    by (simp add: example_listening_tracker_def example_constants_def)
  have nonmemo: "is_not_memo_policy (policy_name 0 (policies ?E ! 0))"
    by (simp add: ex_name0 ex_not_memo)
  have fb: "1 < length (policies ?E)" "is_FallbackPolicy (policies ?E ! 1)"
    "\<forall>j < 1. \<not> is_FallbackPolicy (policies ?E ! j)"
    by simp_all
  have scores: "fallback_scores (policies ?E ! 1) ?D = Inr (map Float [0, 0, 0, 1, 0])"
    by (simp add: fallback_scores_def index_for_action_def num_actions_def example_defs)
  from fallback_override_replaces_winner [OF ok ex_first_maximal sc base listen top prev nonmemo fb scores]
  have "probabilities_using_best_policy example_constants ?E ?T ?D
           = Inr (Some (map Float [0, 0, 0, 1, 0]), Some (policy_name 1 (policies ?E ! 1)))
        \<and> policy_name 1 (policies ?E ! 1) \<noteq> policy_name 0 (policies ?E ! 0)"
    by simp
  with ex_first_maximal sc listen top prev nonmemo scores show ?thesis
    by (simp add: ex_name1)
qed

text \<open>
  C10. With an empty policy list the loop body never runs: for every tracker and
  domain \<open>probabilities_using_best_policy\<close> returns \<open>(None, None)\<close>, and raises
  nothing.
\<close>

theorem empty_ensemble_returns_None:
  "probabilities_using_best_policy K \<lparr> policies = [] \<rparr> tr d = Inr (None, None)"
  by (simp add: probabilities_using_best_policy_def override_condition_def initial_best_def)

section \<open>Properties of the evaluation store, the version guard and the state schema\<close>

lemma pad_lists_to_size_length:
  "length (fst (pad_lists_to_size xs ys v)) = max (length xs) (length ys)"
  "length (snd (pad_lists_to_size xs ys v)) = max (length xs) (length ys)"
  by (simp_all add: pad_lists_to_size_def)

lemma pad_lists_to_size_eq:
  "pad_lists_to_size xs ys v =
     (xs @ replicate (length ys - length xs) v, ys @ replicate (length xs - length ys) v)"
  by (simp add: pad_lists_to_size_def)

text \<open>
  C8. Whatever store \<open>s\<close> one starts from and whatever sequence of
  \<open>add_to_store\<close> and \<open>merge_store\<close> operations follows, \<open>serialise\<close> returns a
  targets list and a predictions list of the same length: each is the combined
  sequence (actions, then intents, then entities) followed by the sentinel \<open>None\<close>
  as often as the other sequence is longer.
\<close>

theorem serialise_equal_length:
  "length (fst (serialise g (run_store_ops s ops))) = length (snd (serialise g (run_store_ops s ops)))
   \<and> fst (serialise g (run_store_ops s ops)) =
       serialise_targets g (run_store_ops s ops)
       @ replicate (length (serialise_predictions g (run_store_ops s ops))
                    - length (serialise_targets g (run_store_ops s ops))) ''None''
   \<and> snd (serialise g (run_store_ops s ops)) =
       serialise_predictions g (run_store_ops s ops)
       @ replicate (length (serialise_targets g (run_store_ops s ops))
                    - length (serialise_predictions g (run_store_ops s ops))) ''None''"
proof -
  let ?s = "run_store_ops s ops"
  let ?t = "serialise_targets g ?s" and ?p = "serialise_predictions g ?s"
  have pair: "serialise g ?s =
      (?t @ replicate (length ?p - length ?t) ''None'', ?p @ replicate (length ?t - length ?p) ''None'')"
    unfolding serialise_def by (rule pad_lists_to_size_eq)
  have "length (?t @ replicate (length ?p - length ?t) ''None'')
      = length (?p @ replicate (length ?t - length ?p) ''None'')"
    by simp
  with pair show ?thesis by simp
qed

lemma ex_store:
  "serialise (\<lambda>text entity. ''entity'')
     (run_store_ops empty_store
        [AddToStore (ArgItem ''utter_greet'') (ArgItem ''utter_greet'') ArgNone
           (ArgList [''greet'']) ArgNone ArgNone,
         MergeStore (empty_store \<lparr> action_predictions := [''action_listen''],
                                   entity_targets := [[(''text'', ''Berlin'')]] \<rparr>)])
   = ([''utter_greet'', ''greet'', ''entity''], [''utter_greet'', ''action_listen'', ''None''])"
  by (simp add: serialise_def pad_lists_to_size_def serialise_targets_def serialise_predictions_def
      run_store_ops_def add_to_store_def merge_store_def empty_store_def)

text \<open>
  C7. \<open>ensure_model_compatibility\<close> raises exactly when the recorded model version,
  \<open>0.0.0\<close> when the metadata has no \<open>rasa\<close> entry, parses strictly below the
  version to check (the minimum compatible version unless one is given); it raises
  \<open>UnsupportedDialogueModelError\<close>, and the message contains the model version and
  the version required.
\<close>

theorem version_guard:
  "((\<exists>e. ensure_model_compatibility parse K metadata version_to_check' = Inl e)
      \<longleftrightarrow> parse (recorded_model_version metadata) < parse (required_version K version_to_check'))
   \<and> (\<forall>e. ensure_model_compatibility parse K metadata version_to_check' = Inl e \<longrightarrow>
          (\<exists>message.
             e = UnsupportedDialogueModelError message (recorded_model_version metadata)
             \<and> message = unsupported_message (recorded_model_version metadata) (rasa_version K)
                           (required_version K version_to_check')
             \<and> sublist (recorded_model_version metadata) message
             \<and> sublist (required_version K version_to_check') message))
   \<and> (\<not> parse (recorded_model_version metadata) < parse (required_version K version_to_check')
        \<longrightarrow> ensure_model_compatibility parse K metadata version_to_check' = Inr ())"
proof -
  let ?mv = "recorded_model_version metadata"
  let ?vc = "required_version K version_to_check'"
  have eq: "ensure_model_compatibility parse K metadata version_to_check' =
      (if parse ?mv < parse ?vc
       then Inl (UnsupportedDialogueModelError (unsupported_message ?mv (rasa_version K) ?vc) ?mv)
       else Inr ())"
    by (simp add: ensure_model_compatibility_def recorded_model_version_def required_version_def
        Let_def)
  have s1: "sublist ?mv (unsupported_message ?mv (rasa_version K) ?vc)"
    unfolding unsupported_message_def sublist_def
    by (metis append.assoc)
  have s2: "sublist ?vc (unsupported_message ?mv (rasa_version K) ?vc)"
    unfolding unsupported_message_def sublist_def
    by (metis append.assoc append_Nil2)
  show ?thesis
    unfolding eq using s1 s2 by simp
qed

lemma ex_versions:
  "version_parse ''0.0.0'' = ([], 3, 0)" "version_parse ''1.9.0'' = ([1, 9], 3, 0)"
  "version_parse ''1.9'' = ([1, 9], 3, 0)" "version_parse ''1.10.2'' = ([1, 10, 2], 3, 0)"
  "version_parse ''1.6.0a2'' = ([1, 6], 0, 2)" "version_parse ''1.6.0rc1'' = ([1, 6], 2, 1)"
  by (simp_all add: version_parse_def number_of_def drop_trailing_zeros_def digit_value_def)

lemma ex_version_order:
  "version_parse ''1.9'' = version_parse ''1.9.0''"
  "version_parse ''1.6.0a2'' < version_parse ''1.6.0rc1''"
  "version_parse ''1.6.0rc1'' < version_parse ''1.6.0''"
  "version_parse ''1.6.0'' < version_parse ''1.6.1''"
  "version_parse ''1.9.0'' < version_parse ''1.10.2''"
  by (simp_all add: version_parse_def number_of_def drop_trailing_zeros_def digit_value_def
      less_prod_def less_eq_prod_def)

text \<open>
  The guard on two metadata documents, with versions read by \<open>version_parse\<close>:
  a document without a recorded version is rejected, version 1.10.2 is accepted against
  1.9.0.
\<close>

theorem version_guard_witness:
  "recorded_model_version [] = ''0.0.0''
   \<and> version_parse ''0.0.0'' < version_parse (required_version example_constants None)
   \<and> ensure_model_compatibility version_parse example_constants [] None
     = Inl (UnsupportedDialogueModelError
         (''The model version is too old to be loaded by this Rasa Core instance. ''
          @ ''Either retrain the model, or run with an older version. ''
          @ ''Model version: 0.0.0 Instance version: 1.9.5 Minimal compatible version: 1.9.0'')
         ''0.0.0'')
   \<and> \<not> version_parse ''1.10.2'' < version_parse (required_version example_constants None)
   \<and> ensure_model_compatibility version_parse example_constants [(''rasa'', ''1.10.2'')] None
     = Inr ()"
proof -
  have mv: "recorded_model_version [] = ''0.0.0''"
    "recorded_model_version [(''rasa'', ''1.10.2'')] = ''1.10.2''"
    and vc: "required_version example_constants None = ''1.9.0''"
    by (simp_all add: recorded_model_version_def required_version_def dict_get_def
        example_constants_def)
  have lt: "version_parse ''0.0.0'' < version_parse ''1.9.0''"
    and ge: "\<not> version_parse ''1.10.2'' < version_parse ''1.9.0''"
    by (simp_all add: ex_versions less_prod_def less_eq_prod_def)
  from version_guard [of version_parse example_constants "[]" None] lt
  obtain e where e: "ensure_model_compatibility version_parse example_constants [] None = Inl e"
    unfolding mv vc by blast
  with version_guard [of version_parse example_constants "[]" None]
  have "e = UnsupportedDialogueModelError
          (unsupported_message ''0.0.0'' (rasa_version example_constants) ''1.9.0'') ''0.0.0''"
    unfolding mv vc by blast
  with e have old: "ensure_model_compatibility version_parse example_constants [] None
     = Inl (UnsupportedDialogueModelError
         (''The model version is too old to be loaded by this Rasa Core instance. ''
          @ ''Either retrain the model, or run with an older version. ''
          @ ''Model version: 0.0.0 Instance version: 1.9.5 Minimal compatible version: 1.9.0'')
         ''0.0.0'')"
    by (simp add: unsupported_message_def example_constants_def)
  from version_guard [of version_parse example_constants "[(''rasa'', ''1.10.2'')]" None] ge
  have new: "ensure_model_compatibility version_parse example_constants [(''rasa'', ''1.10.2'')] None
     = Inr ()"
    unfolding mv vc by blast
  from mv(1) lt ge old new show ?thesis
    unfolding vc by blast
qed

lemma dict_get_dict_set:
  "dict_get (dict_set d k v) k' = (if k' = k then Some v else dict_get d k')"
  by (induction d) (auto simp: dict_get_def)

lemma dict_keys_dict_set: "set (dict_keys (dict_set d k v)) = insert k (set (dict_keys d))"
proof (induction d)
  case Nil
  then show ?case by (simp add: dict_keys_def)
next
  case (Cons kv d)
  obtain k' v' where kv: "kv = (k', v')" by (cases kv)
  show ?case
  proof (cases "k' = k")
    case True
    with kv show ?thesis by (simp add: dict_keys_def)
  next
    case False
    with kv Cons.IH show ?thesis by (simp add: dict_keys_def insert_commute)
  qed
qed

lemma enumerate_store_notin:
  "s \<notin> set xs \<Longrightarrow>
   dict_get (foldl (\<lambda>m (i, f). dict_set m f i) m0 (enumerate n xs)) s = dict_get m0 s"
  by (induction xs arbitrary: n m0) (auto simp: dict_get_dict_set)

lemma enumerate_store_in:
  "s \<in> set xs \<Longrightarrow>
   \<exists>i. dict_get (foldl (\<lambda>m (i, f). dict_set m f i) m0 (enumerate n xs)) s = Some i
       \<and> n \<le> i \<and> i < n + length xs \<and> xs ! (i - n) = s"
proof (induction xs arbitrary: n m0)
  case Nil
  then show ?case by simp
next
  case (Cons x xs)
  show ?case
  proof (cases "s \<in> set xs")
    case True
    from Cons.IH [OF True, of "dict_set m0 x n" "Suc n"] obtain i where
      i: "dict_get (foldl (\<lambda>m (i, f). dict_set m f i) (dict_set m0 x n) (enumerate (Suc n) xs)) s = Some i"
      and bounds: "Suc n \<le> i" "i < Suc n + length xs" and nth: "xs ! (i - Suc n) = s"
      by blast
    from bounds have "i - n = Suc (i - Suc n)" by simp
    with nth have "(x # xs) ! (i - n) = s" by simp
    with i bounds show ?thesis by auto
  next
    case False
    with Cons.prems have sx: "s = x" by simp
    from False have "dict_get (foldl (\<lambda>m (i, f). dict_set m f i) (dict_set m0 x n) (enumerate (Suc n) xs)) s
        = dict_get (dict_set m0 x n) s"
      by (rule enumerate_store_notin)
    with sx show ?thesis by (simp add: dict_get_dict_set)
  qed
qed

text \<open>
  C9. For every domain, \<open>input_states\<close> has \<open>num_states\<close> entries;
  \<open>index_of_state\<close> returns an index below \<open>num_states\<close> for every state of
  \<open>input_states\<close> (an index at which the list holds that state), and \<open>None\<close> for
  every other name.
\<close>

theorem index_of_state_in_range:
  "length (input_states d) = num_states d
   \<and> (\<forall>s \<in> set (input_states d).
         \<exists>i. index_of_state d s = Some i \<and> i < num_states d \<and> input_states d ! i = s)
   \<and> (\<forall>s. s \<notin> set (input_states d) \<longrightarrow> index_of_state d s = None)"
proof (intro conjI ballI allI impI)
  show "length (input_states d) = num_states d" by (simp add: num_states_def)
next
  fix s assume "s \<in> set (input_states d)"
  from enumerate_store_in [OF this, of "[]" 0]
  show "\<exists>i. index_of_state d s = Some i \<and> i < num_states d \<and> input_states d ! i = s"
    by (simp add: index_of_state_def input_state_map_def num_states_def)
next
  fix s assume "s \<notin> set (input_states d)"
  from enumerate_store_notin [OF this, of "[]" 0]
  show "index_of_state d s = None"
    by (simp add: index_of_state_def input_state_map_def dict_get_def)
qed

lemma ex_input_states:
  "input_states example_domain =
     [''intent_greet'', ''prev_action_listen'', ''prev_action_restart'',
      ''prev_action_default_fallback'', ''prev_action_custom_fallback'', ''prev_utter_greet'']"
  by (simp add: input_states_def intent_states_def entity_states_def slot_states_def
      prev_action_states_def form_states_def intents_of_def dict_keys_def PREV_PREFIX_def
      example_domain_def)

text \<open>
  The theorem at the example domain, which has six states.
\<close>

theorem index_of_state_witness:
  "''prev_utter_greet'' \<in> set (input_states example_domain)
   \<and> ''intent_goodbye'' \<notin> set (input_states example_domain)
   \<and> num_states example_domain = 6
   \<and> index_of_state example_domain ''prev_utter_greet'' = Some 5
   \<and> index_of_state example_domain ''intent_goodbye'' = None"
proof -
  have a: "''prev_utter_greet'' \<in> set (input_states example_domain)"
    and b: "''intent_goodbye'' \<notin> set (input_states example_domain)"
    by (simp_all add: ex_input_states)
  have n: "num_states example_domain = 6"
    by (simp add: num_states_def ex_input_states)
  from index_of_state_in_range [of example_domain] a b
  have "(\<exists>i. index_of_state example_domain ''prev_utter_greet'' = Some i \<and> i < num_states example_domain
            \<and> input_states example_domain ! i = ''prev_utter_greet'')"
    and none: "index_of_state example_domain ''intent_goodbye'' = None"
    by blast+
  then obtain i where i: "index_of_state example_domain ''prev_utter_greet'' = Some i"
    and lt: "i < 6" and nth: "input_states example_domain ! i = ''prev_utter_greet''"
    unfolding n by blast
  from lt have "i \<in> {0, 1, 2, 3, 4, 5}" by auto
  with nth have "i = 5" unfolding ex_input_states by auto
  with i a b n none show ?thesis by simp
qed


text \<open>
  C5. Let the persisted specification record the list \<open>states\<close>. When it differs
  from the domain's \<open>input_states\<close> as a set, \<open>compare_with_specification\<close> raises
  InvalidDomain for a changed specification, naming the states removed (recorded, not
  in the domain) and the states added (in the domain, not recorded), which are not both
  empty; when the sets are equal it returns \<open>True\<close>.
\<close>

theorem specification_changed_names_states:
  assumes "dict_get loaded_domain_spec ''states'' = Some states"
  shows "(set states \<noteq> set (input_states d) \<longrightarrow>
            compare_with_specification d loaded_domain_spec =
              Inl (InvalidDomain (SpecificationChanged
                     (set states - set (input_states d)) (set (input_states d) - set states)))
            \<and> (set states - set (input_states d) \<noteq> {}
               \<or> set (input_states d) - set states \<noteq> {}))
       \<and> (set states = set (input_states d) \<longrightarrow>
            compare_with_specification d loaded_domain_spec = Inr True)"
proof (intro conjI impI)
  assume ne: "set states \<noteq> set (input_states d)"
  with assms show "compare_with_specification d loaded_domain_spec =
              Inl (InvalidDomain (SpecificationChanged
                     (set states - set (input_states d)) (set (input_states d) - set states)))"
    by (simp add: compare_with_specification_def)
  from ne show "set states - set (input_states d) \<noteq> {}
               \<or> set (input_states d) - set states \<noteq> {}"
    by blast
next
  assume "set states = set (input_states d)"
  with assms show "compare_with_specification d loaded_domain_spec = Inr True"
    by (simp add: compare_with_specification_def)
qed

text \<open>
  The theorem at the example domain: a specification from before the actions were
  added and an intent was dropped, and one that lists the same states in another order.
\<close>

theorem specification_changed_witness:
  "dict_get [(''states'', [''intent_greet'', ''intent_goodbye''])] ''states''
     = Some [''intent_greet'', ''intent_goodbye'']
   \<and> compare_with_specification example_domain [(''states'', [''intent_greet'', ''intent_goodbye''])]
     = Inl (InvalidDomain (SpecificationChanged {''intent_goodbye''}
          {''prev_action_listen'', ''prev_action_restart'', ''prev_action_default_fallback'',
           ''prev_action_custom_fallback'', ''prev_utter_greet''}))
   \<and> compare_with_specification example_domain
        [(''states'', [''prev_utter_greet'', ''intent_greet'', ''prev_action_listen'',
            ''prev_action_restart'', ''prev_action_default_fallback'',
            ''prev_action_custom_fallback'', ''intent_greet''])]
     = Inr True"
proof -
  let ?old = "[''intent_greet'', ''intent_goodbye'']"
  let ?same = "[''prev_utter_greet'', ''intent_greet'', ''prev_action_listen'',
            ''prev_action_restart'', ''prev_action_default_fallback'',
            ''prev_action_custom_fallback'', ''intent_greet'']"
  have g1: "dict_get [(''states'', ?old)] ''states'' = Some ?old"
    and g2: "dict_get [(''states'', ?same)] ''states'' = Some ?same"
    by (simp_all add: dict_get_def)
  have "''intent_goodbye'' \<in> set ?old" "''intent_goodbye'' \<notin> set (input_states example_domain)"
    unfolding ex_input_states by simp_all
  then have ne: "set ?old \<noteq> set (input_states example_domain)"
    by metis
  have "set ?same \<subseteq> set (input_states example_domain)"
    and "set (input_states example_domain) \<subseteq> set ?same"
    unfolding ex_input_states by simp_all
  then have eq: "set ?same = set (input_states example_domain)"
    by (rule subset_antisym)
  have r: "set ?old - set (input_states example_domain) = {''intent_goodbye''}"
    unfolding ex_input_states by simp
  have a: "set (input_states example_domain) - set ?old
      = {''prev_action_listen'', ''prev_action_restart'', ''prev_action_default_fallback'',
           ''prev_action_custom_fallback'', ''prev_utter_greet''}"
    unfolding ex_input_states by simp
  from specification_changed_names_states [OF g1, of example_domain] ne
  have "compare_with_specification example_domain [(''states'', ?old)]
     = Inl (InvalidDomain (SpecificationChanged {''intent_goodbye''}
          {''prev_action_listen'', ''prev_action_restart'', ''prev_action_default_fallback'',
           ''prev_action_custom_fallback'', ''prev_utter_greet''}))"
    unfolding r a by blast
  moreover from specification_changed_names_states [OF g2, of example_domain] eq
  have "compare_with_specification example_domain [(''states'', ?same)] = Inr True"
    by blast
  ultimately show ?thesis using g1 by blast
qed

section \<open>Properties of the domain: construction, featurized entities, merge\<close>

lemma dict_set_fresh: "k \<notin> set (dict_keys d) \<Longrightarrow> dict_set d k v = d @ [(k, v)]"
  by (induction d) (auto simp: dict_keys_def)

lemma intent_entry_key [simp]: "fst (intent_entry i) = intent_key i"
  by (cases i) simp_all

lemma collect_loop_distinct:
  assumes "distinct (map intent_key intents)"
    and "set (map intent_key intents) \<inter> set (dict_keys acc) = {}"
  shows "collect_intent_properties_loop intents acc = Inr (acc @ map intent_entry intents)"
  using assms
proof (induction intents arbitrary: acc)
  case Nil
  then show ?case by simp
next
  case (Cons i intents)
  obtain name properties where e: "intent_entry i = (name, properties)"
    by (cases "intent_entry i")
  then have nm: "name = intent_key i"
    using intent_entry_key [of i] by simp
  from Cons.prems nm have fresh: "name \<notin> set (dict_keys acc)" by auto
  then have step: "dict_set acc name properties = acc @ [(name, properties)]"
    by (rule dict_set_fresh)
  have "distinct (map intent_key intents)"
    using Cons.prems(1) by simp
  moreover have "set (map intent_key intents) \<inter> set (dict_keys (acc @ [(name, properties)])) = {}"
    using Cons.prems nm by (auto simp: dict_keys_def)
  ultimately have "collect_intent_properties_loop intents (acc @ [(name, properties)])
      = Inr ((acc @ [(name, properties)]) @ map intent_entry intents)"
    by (rule Cons.IH)
  with e fresh step show ?case by simp
qed

lemma collect_loop_Inr:
  "collect_intent_properties_loop intents acc = Inr props \<Longrightarrow>
   distinct (map intent_key intents) \<and> set (map intent_key intents) \<inter> set (dict_keys acc) = {}"
proof (induction intents arbitrary: acc)
  case Nil
  then show ?case by simp
next
  case (Cons i intents)
  obtain name properties where e: "intent_entry i = (name, properties)"
    by (cases "intent_entry i")
  then have nm: "name = intent_key i"
    using intent_entry_key [of i] by simp
  from Cons.prems e have fresh: "name \<notin> set (dict_keys acc)"
    and rest: "collect_intent_properties_loop intents (dict_set acc name properties) = Inr props"
    by (auto split: if_splits)
  from Cons.IH [OF rest] have d: "distinct (map intent_key intents)"
    and disj: "set (map intent_key intents) \<inter> set (dict_keys (dict_set acc name properties)) = {}"
    by simp_all
  have "set (dict_keys (dict_set acc name properties)) = insert name (set (dict_keys acc))"
    by (rule dict_keys_dict_set)
  with disj d fresh nm show ?case by auto
qed

lemma collect_intent_properties_iff:
  "collect_intent_properties intents = Inr props \<longleftrightarrow>
     distinct (map intent_key intents) \<and> props = map intent_entry intents"
proof
  assume a: "collect_intent_properties intents = Inr props"
  then have d: "distinct (map intent_key intents)"
    using collect_loop_Inr [of intents "[]" props] by (simp add: collect_intent_properties_def)
  from collect_loop_distinct [OF d, of "[]"] a show
    "distinct (map intent_key intents) \<and> props = map intent_entry intents"
    using d by (simp add: collect_intent_properties_def dict_keys_def)
next
  assume "distinct (map intent_key intents) \<and> props = map intent_entry intents"
  with collect_loop_distinct [of intents "[]"] show "collect_intent_properties intents = Inr props"
    by (simp add: collect_intent_properties_def dict_keys_def)
qed

lemma set_first_occurrences [simp]: "set (first_occurrences xs) = set xs"
  by (induction xs) auto

lemma distinct_count_list: "distinct xs \<longleftrightarrow> (\<forall>x \<in> set xs. count_list xs x \<le> 1)"
proof (induction xs)
  case Nil
  then show ?case by simp
next
  case (Cons y ys)
  show ?case
  proof (cases "y \<in> set ys")
    case True
    then have "count_list ys y \<noteq> 0" by (simp add: count_list_0_iff)
    then have "\<not> count_list (y # ys) y \<le> 1" by simp
    with True show ?thesis by auto
  next
    case False
    then have "count_list ys y = 0" by (simp add: count_list_0_iff)
    with False Cons.IH show ?thesis by auto
  qed
qed

lemma get_duplicates_Nil: "get_duplicates xs = [] \<longleftrightarrow> distinct xs"
  unfolding get_duplicates_def distinct_count_list filter_empty_conv
  by (auto simp: not_less)

lemma check_mappings_Nil:
  "check_mappings d = [] \<longleftrightarrow>
     (\<forall>(intent, properties) \<in> set (intent_properties d).
        \<forall>a. triggers properties = Some a \<longrightarrow> a \<in> set (action_names d))"
  unfolding check_mappings_def
  by (auto split: option.splits if_splits)

lemma Domain_init_iff:
  "Domain_init K intents entities' slots' templates' action_names' form_names' store sess = Inr d
   \<longleftrightarrow>
   valid_arguments K intents entities' slots' templates' action_names' form_names'
   \<and> d = \<lparr> intent_properties = map intent_entry intents, entities = entities',
           form_names = form_names', slots = slots', templates = templates',
           session_config = sess,
           user_actions = combine_with_templates action_names' templates',
           action_names = init_action_names K templates' action_names' form_names',
           store_entities_as_slots = store \<rparr>"
proof (cases "distinct (map intent_key intents)")
  case False
  then have "\<forall>props. collect_intent_properties intents \<noteq> Inr props"
    by (simp add: collect_intent_properties_iff)
  then have "\<exists>e. collect_intent_properties intents = Inl e"
    by (cases "collect_intent_properties intents") auto
  with False show ?thesis
    by (auto simp: Domain_init_def valid_arguments_def)
next
  case True
  then have c: "collect_intent_properties intents = Inr (map intent_entry intents)"
    by (simp add: collect_intent_properties_iff)
  let ?d = "\<lparr> intent_properties = map intent_entry intents, entities = entities',
           form_names = form_names', slots = slots', templates = templates',
           session_config = sess,
           user_actions = combine_with_templates action_names' templates',
           action_names = init_action_names K templates' action_names' form_names',
           store_entities_as_slots = store \<rparr>"
  have sane: "check_domain_sanity ?d = Inr () \<longleftrightarrow>
      valid_arguments K intents entities' slots' templates' action_names' form_names'"
    using True
    by (auto simp: check_domain_sanity_def Let_def get_duplicates_Nil check_mappings_Nil
        valid_arguments_def)
  have "Domain_init K intents entities' slots' templates' action_names' form_names' store sess
      = (case check_domain_sanity ?d of Inl e \<Rightarrow> Inl e | Inr _ \<Rightarrow> Inr ?d)"
    unfolding Domain_init_def init_action_names_def by (simp add: c Let_def)
  with sane show ?thesis
    by (cases "check_domain_sanity ?d") auto
qed


lemma featurized_with_lists:
  assumes "intent_name m = Some name"
    and "dict_get (intent_properties d) name = Some c"
    and "use_entities c = Some (UseList L)" and "ignore_entities c = Some I"
  shows "get_featurized_entities d m =
           Inr (if set L \<inter> set I \<noteq> {} then [AmbiguousEntities (set L \<inter> set I) (Some name)] else [],
                set (List.map_filter (\<lambda>entity. dict_get entity ''entity'') (message_entities m))
                  \<inter> (set L - set I))"
  using assms by (simp add: get_featurized_entities_def intent_config_of_def Let_def)

lemma normalise_keeps_lists:
  assumes "use_entities properties = Some (UseList L)" and "ignore_entities properties = Some I"
  shows "use_entities (normalise_properties properties) = Some (UseList L)"
    and "ignore_entities (normalise_properties properties) = Some I"
  using assms by (simp_all add: normalise_properties_def)

lemma dict_get_entry:
  assumes "distinct (map intent_key intents)" and "i \<in> set intents"
  shows "dict_get (map intent_entry intents) (intent_key i) = Some (snd (intent_entry i))"
proof -
  have "map fst (map intent_entry intents) = map intent_key intents"
    by (induction intents) simp_all
  with assms(1) have "distinct (map fst (map intent_entry intents))" by (simp only:)
  moreover have "(intent_key i, snd (intent_entry i)) \<in> set (map intent_entry intents)"
  proof -
    have "intent_entry i = (intent_key i, snd (intent_entry i))"
      by (cases i) simp_all
    moreover have "intent_entry i \<in> set (map intent_entry intents)"
      using assms(2) by simp
    ultimately show ?thesis by simp
  qed
  ultimately show ?thesis
    unfolding dict_get_def by (rule map_of_is_SomeI)
qed

lemma fold_updates_other:
  assumes "\<And>x. x \<in> set xs \<Longrightarrow> key_of x \<noteq> k"
  shows "fold (\<lambda>x st. if cond x then st(key_of x \<mapsto> val x) else st) xs st k = st k"
  using assms by (induction xs arbitrary: st) auto

lemma slot_features_other:
  assumes "hd k \<noteq> CHR ''s''"
  shows "slot_features key features st k = st k"
proof -
  have "fold (\<lambda>x st. if snd x \<noteq> 0 then st(''slot_'' @ key @ ''_'' @ str_nat (fst x) \<mapsto> snd x) else st)
          (enumerate 0 features) st k = st k"
  proof (rule fold_updates_other)
    fix x :: "nat \<times> real"
    show "''slot_'' @ key @ ''_'' @ str_nat (fst x) \<noteq> k"
      using assms by auto
  qed
  then show ?thesis
    by (simp add: slot_features_def case_prod_unfold)
qed

lemma slot_states_of_other:
  assumes "hd k \<noteq> CHR ''s''"
  shows "slot_states_of slots' st k = st k"
  unfolding slot_states_of_def
  by (induction slots' arbitrary: st) (auto simp: slot_features_other [OF assms] split: option.splits)

lemma intent_states_of_other:
  assumes "hd k \<noteq> CHR ''i''"
  shows "intent_states_of m st k = st k"
proof (cases "intent_ranking m")
  case None
  then show ?thesis using assms by (auto simp: intent_states_of_def)
next
  case (Some ranking)
  have "fold (\<lambda>x st. if truthy (fst x) then st(''intent_'' @ the (fst x) \<mapsto> snd x) else st)
          ranking st k = st k"
  proof (rule fold_updates_other)
    fix x :: "string option \<times> real"
    show "''intent_'' @ the (fst x) \<noteq> k"
      using assms by auto
  qed
  with Some show ?thesis
    by (simp add: intent_states_of_def case_prod_unfold)
qed

lemma entity_states_of_None:
  "e \<notin> featurized \<Longrightarrow> entity_states_of featurized (''entity_'' @ e) = None"
  by (auto simp: entity_states_of_def)

lemma state_of_excluded_entity:
  assumes "e \<notin> featurized"
  shows "intent_states_of m (slot_states_of slots' (entity_states_of featurized)) (''entity_'' @ e)
           = None"
proof -
  have i: "hd (''entity_'' @ e) \<noteq> CHR ''i''" and s: "hd (''entity_'' @ e) \<noteq> CHR ''s''"
    by simp_all
  have "intent_states_of m (slot_states_of slots' (entity_states_of featurized)) (''entity_'' @ e)
      = slot_states_of slots' (entity_states_of featurized) (''entity_'' @ e)"
    using i by (rule intent_states_of_other)
  also have "\<dots> = entity_states_of featurized (''entity_'' @ e)"
    using s by (rule slot_states_of_other)
  also have "\<dots> = None"
    using assms by (rule entity_states_of_None)
  finally show ?thesis .
qed

lemma ex_valid_arguments:
  "valid_arguments example_constants ambiguous_intents [''city'', ''date''] []
     [(''utter_greet'', [TemplateDict [(''text'', ''hello'')]])] [''action_custom_fallback''] []"
  by (simp add: valid_arguments_def init_action_names_def combine_user_with_default_actions_def
      combine_with_templates_def dict_keys_def example_constants_def ambiguous_intents_def
      normalise_properties_def)

text \<open>
  C6 as stated fails. The intent \<open>inform\<close> of \<open>ambiguous_intents\<close> lists the
  entity \<open>date\<close> both in \<open>use_entities\<close> and in \<open>ignore_entities\<close>. The
  construction of the domain succeeds, and it raises no warning.
\<close>

theorem ambiguous_entities_construction_is_silent:
  "ambiguous_intents =
     [IntentName ''greet'',
      IntentDict ''inform''
        \<lparr> use_entities = Some (UseList [''city'', ''date'']), ignore_entities = Some [''date''],
          triggers = None \<rparr>]
   \<and> ''date'' \<in> set [''city'', ''date''] \<inter> set [''date'']
   \<and> Domain_init_logged example_constants ambiguous_intents [''city'', ''date''] []
        [(''utter_greet'', [TemplateDict [(''text'', ''hello'')]])]
        [''action_custom_fallback''] [] True
        \<lparr> session_expiration_time = 0, carry_over_slots = True \<rparr>
       = ([], Inr example_ambiguous_domain)"
proof -
  have "Domain_init example_constants ambiguous_intents [''city'', ''date''] []
        [(''utter_greet'', [TemplateDict [(''text'', ''hello'')]])]
        [''action_custom_fallback''] [] True
        \<lparr> session_expiration_time = 0, carry_over_slots = True \<rparr>
       = Inr example_ambiguous_domain"
    using ex_valid_arguments unfolding Domain_init_iff
    by (simp add: example_ambiguous_domain_def ambiguous_intents_def
        normalise_properties_def init_action_names_def combine_user_with_default_actions_def
        combine_with_templates_def dict_keys_def example_constants_def)
  then show ?thesis
    by (simp add: Domain_init_logged_def ambiguous_intents_def)
qed

text \<open>
  C6, as amended. Let the arguments of the construction be valid
  (\<open>valid_arguments\<close>: no duplicate names, existing triggers), and let one intent
  give \<open>use_entities\<close> as the list \<open>L\<close> and \<open>ignore_entities\<close> as the list
  \<open>I\<close>, the two with a common element. Then the construction succeeds and raises no
  warning. The warning about the entities in both lists is raised by
  \<open>_get_featurized_entities\<close>, for every message with that intent, each time such a
  message is featurized, and the set it returns holds no entity of \<open>L \<inter> I\<close>: it
  returns entities of \<open>L - I\<close> only. Accordingly \<open>get_parsing_states\<close>, for a
  tracker whose latest message is such a message, raises that warning (when the intent
  name is not empty) and returns a state dictionary without an entry \<open>entity_e\<close> for
  an entity \<open>e\<close> of \<open>L \<inter> I\<close>.
\<close>

theorem excluded_entity_never_featurized:
  assumes valid: "valid_arguments K intents entities' slots' templates' action_names' form_names'"
    and decl: "IntentDict name properties \<in> set intents"
    and L: "use_entities properties = Some (UseList L)"
    and I: "ignore_entities properties = Some I"
    and ambiguous: "set L \<inter> set I \<noteq> {}"
  shows "\<exists>d. Domain_init_logged K intents entities' slots' templates' action_names' form_names'
               store sess = ([], Inr d)
           \<and> (\<forall>m. intent_name m = Some name \<longrightarrow>
                 (\<exists>featurized.
                    get_featurized_entities d m =
                      Inr ([AmbiguousEntities (set L \<inter> set I) (Some name)], featurized)
                    \<and> featurized \<inter> (set L \<inter> set I) = {}
                    \<and> featurized \<subseteq> set L - set I)
                 \<and> (\<forall>tr. latest_message tr = Some m \<longrightarrow>
                       (\<exists>state_dict.
                          get_parsing_states d tr =
                            Inr (if name \<noteq> [] then [AmbiguousEntities (set L \<inter> set I) (Some name)]
                                 else [], state_dict)
                          \<and> (\<forall>e \<in> set L \<inter> set I. state_dict (''entity_'' @ e) = None))))"
proof -
  let ?d = "\<lparr> intent_properties = map intent_entry intents, entities = entities',
           form_names = form_names', slots = slots', templates = templates',
           session_config = sess,
           user_actions = combine_with_templates action_names' templates',
           action_names = init_action_names K templates' action_names' form_names',
           store_entities_as_slots = store \<rparr>"
  let ?names = "\<lambda>m. set (List.map_filter (\<lambda>entity. dict_get entity ''entity'') (message_entities m))
                  \<inter> (set L - set I)"
  let ?w = "[AmbiguousEntities (set L \<inter> set I) (Some name)]"
  from valid have "Domain_init K intents entities' slots' templates' action_names' form_names'
      store sess = Inr ?d"
    by (simp add: Domain_init_iff)
  then have init: "Domain_init_logged K intents entities' slots' templates' action_names' form_names'
      store sess = ([], Inr ?d)"
    by (simp add: Domain_init_logged_def)
  from valid have dist: "distinct (map intent_key intents)"
    by (simp add: valid_arguments_def)
  from dict_get_entry [OF dist decl]
  have look: "dict_get (intent_properties ?d) name = Some (normalise_properties properties)"
    by simp
  have feat: "get_featurized_entities ?d m = Inr (?w, ?names m)"
    if m: "intent_name m = Some name" for m
    using featurized_with_lists [OF m look normalise_keeps_lists [OF L I]] ambiguous by simp
  have "\<forall>m. intent_name m = Some name \<longrightarrow>
                 (\<exists>featurized.
                    get_featurized_entities ?d m = Inr (?w, featurized)
                    \<and> featurized \<inter> (set L \<inter> set I) = {}
                    \<and> featurized \<subseteq> set L - set I)
                 \<and> (\<forall>tr. latest_message tr = Some m \<longrightarrow>
                       (\<exists>state_dict.
                          get_parsing_states ?d tr = Inr (if name \<noteq> [] then ?w else [], state_dict)
                          \<and> (\<forall>e \<in> set L \<inter> set I. state_dict (''entity_'' @ e) = None)))"
  proof (intro allI impI conjI)
    fix m :: UserUttered
    assume m: "intent_name m = Some name"
    from feat [OF m] show "\<exists>featurized.
                    get_featurized_entities ?d m = Inr (?w, featurized)
                    \<and> featurized \<inter> (set L \<inter> set I) = {}
                    \<and> featurized \<subseteq> set L - set I"
      by blast
  next
    fix m :: UserUttered and tr :: tracker
    assume m: "intent_name m = Some name" and tr: "latest_message tr = Some m"
    show "\<exists>state_dict.
              get_parsing_states ?d tr = Inr (if name \<noteq> [] then ?w else [], state_dict)
              \<and> (\<forall>e \<in> set L \<inter> set I. state_dict (''entity_'' @ e) = None)"
    proof (cases "name \<noteq> []")
      case True
      with m have "truthy (intent_name m)" by (simp add: truthy_def)
      with tr feat [OF m] True have "get_parsing_states ?d tr =
          Inr (if name \<noteq> [] then ?w else [],
               intent_states_of m (slot_states_of (tracker_slots tr) (entity_states_of (?names m))))"
        by (simp add: get_parsing_states_def)
      moreover have "\<forall>e \<in> set L \<inter> set I.
          intent_states_of m (slot_states_of (tracker_slots tr) (entity_states_of (?names m)))
            (''entity_'' @ e) = None"
      proof
        fix e assume "e \<in> set L \<inter> set I"
        then have "e \<notin> ?names m" by blast
        then show "intent_states_of m (slot_states_of (tracker_slots tr) (entity_states_of (?names m)))
            (''entity_'' @ e) = None"
          by (rule state_of_excluded_entity)
      qed
      ultimately show ?thesis by blast
    next
      case False
      with m have "\<not> truthy (intent_name m)" by (simp add: truthy_def)
      with tr False have "get_parsing_states ?d tr =
          Inr (if name \<noteq> [] then ?w else [],
               intent_states_of m (slot_states_of (tracker_slots tr) (entity_states_of {})))"
        by (simp add: get_parsing_states_def)
      moreover have "\<forall>e \<in> set L \<inter> set I.
          intent_states_of m (slot_states_of (tracker_slots tr) (entity_states_of {}))
            (''entity_'' @ e) = None"
      proof
        fix e :: string
        have "e \<notin> {}" by simp
        then show "intent_states_of m (slot_states_of (tracker_slots tr) (entity_states_of {}))
            (''entity_'' @ e) = None"
          by (rule state_of_excluded_entity)
      qed
      ultimately show ?thesis by blast
    qed
  qed
  with init show ?thesis by blast
qed

text \<open>
  The theorem at an example: the intent \<open>inform\<close> uses \<open>city\<close> and \<open>date\<close> and
  ignores \<open>date\<close>; the construction raises no warning, the featurization of a message
  with both entities does, and the message is featurized with \<open>city\<close> only.
\<close>

theorem excluded_entity_witness:
  "valid_arguments example_constants ambiguous_intents [''city'', ''date''] []
     [(''utter_greet'', [TemplateDict [(''text'', ''hello'')]])] [''action_custom_fallback''] []
   \<and> set [''city'', ''date''] \<inter> set [''date''] = {''date''}
   \<and> (\<exists>d. Domain_init_logged example_constants ambiguous_intents [''city'', ''date''] []
             [(''utter_greet'', [TemplateDict [(''text'', ''hello'')]])]
             [''action_custom_fallback''] [] True
             \<lparr> session_expiration_time = 0, carry_over_slots = True \<rparr> = ([], Inr d)
          \<and> get_featurized_entities d inform_message
              = Inr ([AmbiguousEntities {''date''} (Some ''inform'')], {''city''})
          \<and> (\<exists>state_dict.
                get_parsing_states d example_inform_tracker
                  = Inr ([AmbiguousEntities {''date''} (Some ''inform'')], state_dict)
                \<and> state_dict ''entity_date'' = None
                \<and> state_dict ''entity_city'' = Some 1
                \<and> state_dict ''slot_city_0'' = Some 1
                \<and> state_dict ''intent_inform'' = Some 0.9))"
proof -
  let ?p = "\<lparr> use_entities = Some (UseList [''city'', ''date'']), ignore_entities = Some [''date''],
          triggers = None \<rparr>"
  have decl: "IntentDict ''inform'' ?p \<in> set ambiguous_intents"
    by (simp add: ambiguous_intents_def)
  have L: "use_entities ?p = Some (UseList [''city'', ''date''])"
    and I: "ignore_entities ?p = Some [''date'']"
    by simp_all
  have amb: "set [''city'', ''date''] \<inter> set [''date''] = {''date''}"
    by simp
  then have ne: "set [''city'', ''date''] \<inter> set [''date''] \<noteq> {}"
    by simp
  have m: "intent_name inform_message = Some ''inform''"
    by (simp add: inform_message_def)
  have tr: "latest_message example_inform_tracker = Some inform_message"
    by (simp add: example_inform_tracker_def)
  from excluded_entity_never_featurized [OF ex_valid_arguments decl L I ne,
      of True "\<lparr> session_expiration_time = 0, carry_over_slots = True \<rparr>"]
  obtain d where init: "Domain_init_logged example_constants ambiguous_intents [''city'', ''date''] []
             [(''utter_greet'', [TemplateDict [(''text'', ''hello'')]])]
             [''action_custom_fallback''] [] True
             \<lparr> session_expiration_time = 0, carry_over_slots = True \<rparr> = ([], Inr d)"
    and all: "\<forall>m. intent_name m = Some ''inform'' \<longrightarrow>
                 (\<exists>featurized.
                    get_featurized_entities d m =
                      Inr ([AmbiguousEntities (set [''city'', ''date''] \<inter> set [''date'']) (Some ''inform'')],
                           featurized)
                    \<and> featurized \<inter> (set [''city'', ''date''] \<inter> set [''date'']) = {}
                    \<and> featurized \<subseteq> set [''city'', ''date''] - set [''date''])
                 \<and> (\<forall>tr. latest_message tr = Some m \<longrightarrow>
                       (\<exists>state_dict.
                          get_parsing_states d tr =
                            Inr (if ''inform'' \<noteq> []
                                 then [AmbiguousEntities (set [''city'', ''date''] \<inter> set [''date''])
                                         (Some ''inform'')]
                                 else [], state_dict)
                          \<and> (\<forall>e \<in> set [''city'', ''date''] \<inter> set [''date''].
                                state_dict (''entity_'' @ e) = None)))"
    by blast
  from all m tr obtain state_dict where
    ps0: "get_parsing_states d example_inform_tracker =
            Inr (if ''inform'' \<noteq> []
                 then [AmbiguousEntities (set [''city'', ''date''] \<inter> set [''date'']) (Some ''inform'')]
                 else [], state_dict)"
    and none: "\<forall>e \<in> set [''city'', ''date''] \<inter> set [''date'']. state_dict (''entity_'' @ e) = None"
    by blast
  from ps0 have ps: "get_parsing_states d example_inform_tracker
      = Inr ([AmbiguousEntities {''date''} (Some ''inform'')], state_dict)"
    by simp
  from none have date: "state_dict ''entity_date'' = None"
    by simp
  from init have props: "intent_properties d = map intent_entry ambiguous_intents"
    by (simp add: Domain_init_logged_def Domain_init_iff)
  have f: "get_featurized_entities d inform_message
      = Inr ([AmbiguousEntities {''date''} (Some ''inform'')], {''city''})"
    by (simp add: get_featurized_entities_def intent_config_of_def props ambiguous_intents_def
        inform_message_def dict_get_def normalise_properties_def List.map_filter_simps Let_def)
  have "get_parsing_states d example_inform_tracker =
      Inr ([AmbiguousEntities {''date''} (Some ''inform'')],
           intent_states_of inform_message
             (slot_states_of (tracker_slots example_inform_tracker) (entity_states_of {''city''})))"
    using f tr m by (simp add: get_parsing_states_def truthy_def)
  with ps have st: "state_dict = intent_states_of inform_message
             (slot_states_of (tracker_slots example_inform_tracker) (entity_states_of {''city''}))"
    by simp
  have vals: "state_dict ''entity_city'' = Some 1" "state_dict ''slot_city_0'' = Some 1"
    "state_dict ''intent_inform'' = Some 0.9"
    unfolding st
    by (simp_all add: intent_states_of_def slot_states_of_def slot_features_def entity_states_of_def
        example_inform_tracker_def inform_message_def truthy_def str_nat_digit digit_char_def)
  from ex_valid_arguments amb init f ps date vals show ?thesis by blast
qed

lemma set_merge_lists [simp]: "set (merge_lists l1 l2) = set l1 \<union> set l2"
  by (simp add: merge_lists_def)

lemma dict_keys_dict_update:
  "set (dict_keys (dict_update a b)) = set (dict_keys a) \<union> set (dict_keys b)"
proof -
  have "set (dict_keys (foldl (\<lambda>d (k, v). dict_set d k v) a b)) = set (dict_keys a) \<union> set (dict_keys b)"
  proof (induction b arbitrary: a)
    case Nil
    then show ?case by (simp add: dict_keys_def)
  next
    case (Cons kv b)
    obtain k v where kv: "kv = (k, v)" by (cases kv)
    have "set (dict_keys (foldl (\<lambda>d (k, v). dict_set d k v) (dict_set a k v) b))
        = set (dict_keys (dict_set a k v)) \<union> set (dict_keys b)"
      by (rule Cons.IH)
    with kv show ?case
      by (simp add: dict_keys_dict_set) (simp add: dict_keys_def)
  qed
  then show ?thesis by (simp add: dict_update_def)
qed

lemma dict_keys_merge_dicts:
  "set (dict_keys (merge_dicts d1 d2 override)) = set (dict_keys d1) \<union> set (dict_keys d2)"
  by (auto simp: merge_dicts_def dict_keys_dict_update)

lemma remove_forms_subset: "set (remove_forms forms actions) \<subseteq> set actions"
proof -
  have "set (foldl (\<lambda>acts form. remove1 form acts) actions forms) \<subseteq> set actions"
  proof (induction forms arbitrary: actions)
    case Nil
    then show ?case by simp
  next
    case (Cons f forms)
    have "set (foldl (\<lambda>acts form. remove1 form acts) (remove1 f actions) forms)
        \<subseteq> set (remove1 f actions)"
      by (rule Cons.IH)
    also have "\<dots> \<subseteq> set actions" by (rule set_remove1_subset)
    finally show ?case by simp
  qed
  then show ?thesis by (simp add: remove_forms_def)
qed

lemma remove_forms_disjoint:
  "set forms \<inter> set actions = {} \<Longrightarrow> remove_forms forms actions = actions"
proof -
  assume "set forms \<inter> set actions = {}"
  then have "foldl (\<lambda>acts form. remove1 form acts) actions forms = actions"
  proof (induction forms)
    case Nil
    then show ?case by simp
  next
    case (Cons f forms)
    then have "f \<notin> set actions" by auto
    then have "remove1 f actions = actions" by (rule remove1_idem)
    with Cons show ?case by auto
  qed
  then show ?thesis by (simp add: remove_forms_def)
qed

lemma collect_templates_loop_keys:
  "collect_templates_loop ts acc = Inr r \<Longrightarrow>
   set (dict_keys r) = set (dict_keys acc) \<union> set (dict_keys ts)"
proof (induction ts arbitrary: acc)
  case Nil
  then show ?case by (simp add: dict_keys_def)
next
  case (Cons kv ts)
  obtain k v where kv: "kv = (k, v)" by (cases kv)
  from Cons.prems kv obtain validated where
    "collect_templates_loop ts (dict_set acc k validated) = Inr r"
    by (auto split: sum.splits)
  from Cons.IH [OF this] have "set (dict_keys r) = set (dict_keys (dict_set acc k validated)) \<union> set (dict_keys ts)" .
  with kv show ?case
    by (simp add: dict_keys_dict_set) (simp add: dict_keys_def)
qed

lemma collect_templates_keys:
  "collect_templates ts = Inr r \<Longrightarrow> set (dict_keys r) = set (dict_keys ts)"
  using collect_templates_loop_keys [of ts "[]" r] by (simp add: collect_templates_def dict_keys_def)

lemma set_combine_with_templates:
  "set (combine_with_templates actions ts) = set actions \<union> set (dict_keys ts)"
  by (auto simp: combine_with_templates_def)

lemma set_init_action_names:
  "set (init_action_names K ts actions forms)
     = set (default_action_names K) \<union> set actions \<union> set (dict_keys ts) \<union> set forms"
  by (auto simp: init_action_names_def combine_user_with_default_actions_def
      set_combine_with_templates)

lemma distinct_init_action_names_disjoint:
  assumes "distinct (init_action_names K ts actions forms)"
  shows "set forms \<inter> (set actions \<union> set (dict_keys ts)) = {}"
proof -
  let ?ua = "combine_with_templates actions ts"
  from assms have a: "set forms \<inter> set (default_action_names K) = {}"
    and b: "set forms \<inter> set (filter (\<lambda>a. a \<notin> set (default_action_names K)) ?ua) = {}"
    unfolding init_action_names_def combine_user_with_default_actions_def by auto
  have "set forms \<inter> set ?ua = {}"
  proof (rule ccontr)
    assume "set forms \<inter> set ?ua \<noteq> {}"
    then obtain x where x: "x \<in> set forms" "x \<in> set ?ua" by blast
    with a have "x \<notin> set (default_action_names K)" by blast
    with x(2) have "x \<in> set (filter (\<lambda>a. a \<notin> set (default_action_names K)) ?ua)" by simp
    with x(1) b show False by blast
  qed
  then show ?thesis by (simp add: set_combine_with_templates)
qed

lemma from_dict_Inr:
  assumes "from_dict K data = Inr d"
  shows "\<exists>ts. collect_templates (responses_key data) = Inr ts
           \<and> user_actions d = combine_with_templates (actions_key data) ts
           \<and> action_names d = init_action_names K ts (actions_key data) (forms_key data)
           \<and> entities d = entities_key data
           \<and> form_names d = forms_key data
           \<and> distinct (action_names d)"
proof -
  from assms obtain ts where ts: "collect_templates (responses_key data) = Inr ts"
    and init: "Domain_init K (intents_key data) (entities_key data) (collect_slots (slots_key data))
            ts (actions_key data) (forms_key data)
            (config_store_entities_as_slots data) (session_config_key data) = Inr d"
    by (auto simp: from_dict_def split: sum.splits)
  from init have "valid_arguments K (intents_key data) (entities_key data)
        (collect_slots (slots_key data)) ts (actions_key data) (forms_key data)"
    and d: "d = \<lparr> intent_properties = map intent_entry (intents_key data),
           entities = entities_key data, form_names = forms_key data,
           slots = collect_slots (slots_key data), templates = ts,
           session_config = session_config_key data,
           user_actions = combine_with_templates (actions_key data) ts,
           action_names = init_action_names K ts (actions_key data) (forms_key data),
           store_entities_as_slots = config_store_entities_as_slots data \<rparr>"
    unfolding Domain_init_iff by simp_all
  then have "distinct (init_action_names K ts (actions_key data) (forms_key data))"
    by (simp add: valid_arguments_def)
  with ts d show ?thesis by simp
qed


lemma merge_Inr:
  assumes "merge K A (Some B) ov = Inr AB"
  shows "\<exists>ts. set (dict_keys ts) = set (dict_keys (templates A)) \<union> set (dict_keys (templates B))
      \<and> user_actions AB =
          combine_with_templates
            (merge_lists (user_actions A) (remove_forms (form_names A) (user_actions B))) ts
      \<and> action_names AB =
          init_action_names K ts
            (merge_lists (user_actions A) (remove_forms (form_names A) (user_actions B)))
            (merge_lists (form_names A) (form_names B))
      \<and> entities AB = merge_lists (entities A) (entities B)
      \<and> form_names AB = merge_lists (form_names A) (form_names B)
      \<and> distinct (action_names AB)"
proof -
  from assms obtain data where fd: "from_dict K data = Inr AB"
    and r: "responses_key data = merge_dicts (templates A) (templates B) ov"
    and a: "actions_key data =
        merge_lists (user_actions A) (remove_forms (form_names A) (user_actions B))"
    and f: "forms_key data = merge_lists (form_names A) (form_names B)"
    and e: "entities_key data = merge_lists (entities A) (entities B)"
    by (simp add: merge_def as_dict_def Let_def)
  from from_dict_Inr [OF fd] obtain ts where
    ts: "collect_templates (responses_key data) = Inr ts"
    and rest: "user_actions AB = combine_with_templates (actions_key data) ts"
      "action_names AB = init_action_names K ts (actions_key data) (forms_key data)"
      "entities AB = entities_key data" "form_names AB = forms_key data"
      "distinct (action_names AB)"
    by blast
  from collect_templates_keys [OF ts]
  have "set (dict_keys ts) = set (dict_keys (templates A)) \<union> set (dict_keys (templates B))"
    unfolding r by (simp add: dict_keys_merge_dicts)
  with rest show ?thesis unfolding a f e by blast
qed

lemma merge_forms_disjoint:
  assumes "merge K A (Some B) ov = Inr AB"
  shows "(set (form_names A) \<union> set (form_names B)) \<inter> set (user_actions A) = {}"
proof -
  from merge_Inr [OF assms] obtain ts where
    an: "action_names AB =
          init_action_names K ts
            (merge_lists (user_actions A) (remove_forms (form_names A) (user_actions B)))
            (merge_lists (form_names A) (form_names B))"
    and d: "distinct (action_names AB)"
    by blast
  from d have "distinct (init_action_names K ts
            (merge_lists (user_actions A) (remove_forms (form_names A) (user_actions B)))
            (merge_lists (form_names A) (form_names B)))"
    unfolding an .
  from distinct_init_action_names_disjoint [OF this] show ?thesis
    by auto
qed

text \<open>
  The same holds when the two calls are made one after the other on the same objects:
  the second call then sees \<open>B\<close> with the forms of \<open>A\<close> already removed from its
  actions, and the results still agree.
\<close>

lemma merge_order_independent_in_place:
  assumes ab: "merge K A (Some B) override_ab = Inr AB"
    and ba: "merge K (other_after_merge A B) (Some A) override_ba = Inr BA"
  shows "set (user_actions AB) = set (user_actions BA)
       \<and> set (action_names AB) = set (action_names BA)
       \<and> set (entities AB) = set (entities BA)
       \<and> set (form_names AB) = set (form_names BA)"
proof -
  let ?B = "other_after_merge A B"
  have fields: "user_actions ?B = remove_forms (form_names A) (user_actions B)"
    "form_names ?B = form_names B" "entities ?B = entities B" "templates ?B = templates B"
    by (simp_all add: other_after_merge_def)
  from merge_forms_disjoint [OF ab] have "set (form_names B) \<inter> set (user_actions A) = {}"
    by blast
  then have ra: "remove_forms (form_names B) (user_actions A) = user_actions A"
    by (rule remove_forms_disjoint)
  from merge_Inr [OF ab] obtain ts where
    k1: "set (dict_keys ts) = set (dict_keys (templates A)) \<union> set (dict_keys (templates B))"
    and u1: "user_actions AB =
          combine_with_templates
            (merge_lists (user_actions A) (remove_forms (form_names A) (user_actions B))) ts"
    and n1: "action_names AB =
          init_action_names K ts
            (merge_lists (user_actions A) (remove_forms (form_names A) (user_actions B)))
            (merge_lists (form_names A) (form_names B))"
    and e1: "entities AB = merge_lists (entities A) (entities B)"
    and f1: "form_names AB = merge_lists (form_names A) (form_names B)"
    by blast
  from merge_Inr [OF ba] obtain ts' where
    k2: "set (dict_keys ts') = set (dict_keys (templates B)) \<union> set (dict_keys (templates A))"
    and u2: "user_actions BA =
          combine_with_templates
            (merge_lists (remove_forms (form_names A) (user_actions B))
               (remove_forms (form_names B) (user_actions A))) ts'"
    and n2: "action_names BA =
          init_action_names K ts'
            (merge_lists (remove_forms (form_names A) (user_actions B))
               (remove_forms (form_names B) (user_actions A)))
            (merge_lists (form_names B) (form_names A))"
    and e2: "entities BA = merge_lists (entities B) (entities A)"
    and f2: "form_names BA = merge_lists (form_names B) (form_names A)"
    unfolding fields by blast
  have "set (user_actions AB) = set (user_actions BA)"
    unfolding u1 u2 ra set_combine_with_templates set_merge_lists k1 k2 by blast
  moreover have "set (action_names AB) = set (action_names BA)"
    unfolding n1 n2 ra set_init_action_names set_merge_lists k1 k2 by blast
  moreover have "set (entities AB) = set (entities BA)"
    unfolding e1 e2 set_merge_lists by blast
  moreover have "set (form_names AB) = set (form_names BA)"
    unfolding f1 f2 set_merge_lists by blast
  ultimately show ?thesis by blast
qed

text \<open>
  C4. When \<open>A.merge(B)\<close> and \<open>B.merge(A)\<close> both return a domain (with any
  override flags), the two results have the same actions (the \<open>actions\<close> entry of
  \<open>as_dict\<close>, that is \<open>user_actions\<close>, and also \<open>action_names\<close>), the same
  entities and the same forms, as sets. In that case no form of one domain is an action
  of the other, so the removal of the forms from the other domain's action list, which
  the code does in place, leaves that list as it is.
\<close>

theorem merge_order_independent:
  assumes ab: "merge K A (Some B) override_ab = Inr AB"
    and ba: "merge K B (Some A) override_ba = Inr BA"
  shows "set (user_actions AB) = set (user_actions BA)
       \<and> set (action_names AB) = set (action_names BA)
       \<and> set (entities AB) = set (entities BA)
       \<and> set (form_names AB) = set (form_names BA)
       \<and> remove_forms (form_names A) (user_actions B) = user_actions B
       \<and> remove_forms (form_names B) (user_actions A) = user_actions A"
proof -
  from merge_forms_disjoint [OF ab] have "set (form_names B) \<inter> set (user_actions A) = {}"
    by blast
  then have ra: "remove_forms (form_names B) (user_actions A) = user_actions A"
    by (rule remove_forms_disjoint)
  from merge_forms_disjoint [OF ba] have "set (form_names A) \<inter> set (user_actions B) = {}"
    by blast
  then have rb: "remove_forms (form_names A) (user_actions B) = user_actions B"
    by (rule remove_forms_disjoint)
  from merge_Inr [OF ab] obtain ts where
    k1: "set (dict_keys ts) = set (dict_keys (templates A)) \<union> set (dict_keys (templates B))"
    and u1: "user_actions AB =
          combine_with_templates
            (merge_lists (user_actions A) (remove_forms (form_names A) (user_actions B))) ts"
    and n1: "action_names AB =
          init_action_names K ts
            (merge_lists (user_actions A) (remove_forms (form_names A) (user_actions B)))
            (merge_lists (form_names A) (form_names B))"
    and e1: "entities AB = merge_lists (entities A) (entities B)"
    and f1: "form_names AB = merge_lists (form_names A) (form_names B)"
    by blast
  from merge_Inr [OF ba] obtain ts' where
    k2: "set (dict_keys ts') = set (dict_keys (templates B)) \<union> set (dict_keys (templates A))"
    and u2: "user_actions BA =
          combine_with_templates
            (merge_lists (user_actions B) (remove_forms (form_names B) (user_actions A))) ts'"
    and n2: "action_names BA =
          init_action_names K ts'
            (merge_lists (user_actions B) (remove_forms (form_names B) (user_actions A)))
            (merge_lists (form_names B) (form_names A))"
    and e2: "entities BA = merge_lists (entities B) (entities A)"
    and f2: "form_names BA = merge_lists (form_names B) (form_names A)"
    by blast
  have "set (user_actions AB) = set (user_actions BA)"
    unfolding u1 u2 ra rb set_combine_with_templates set_merge_lists k1 k2 by blast
  moreover have "set (action_names AB) = set (action_names BA)"
    unfolding n1 n2 ra rb set_init_action_names set_merge_lists k1 k2 by blast
  moreover have "set (entities AB) = set (entities BA)"
    unfolding e1 e2 set_merge_lists by blast
  moreover have "set (form_names AB) = set (form_names BA)"
    unfolding f1 f2 set_merge_lists by blast
  ultimately show ?thesis using ra rb by blast
qed

lemma ex_merge_ab:
  "merge example_constants example_domain_a (Some example_domain_b) False = Inr example_merged_ab"
  by code_simp

lemma ex_merge_ba:
  "merge example_constants example_domain_b (Some example_domain_a) False = Inr example_merged_ba"
  by code_simp

text \<open>
  The theorem at two example domains: the merged intents come in different orders,
  the actions, entities and forms are the same.
\<close>

theorem merge_order_witness:
  "merge example_constants example_domain_a (Some example_domain_b) False = Inr example_merged_ab
   \<and> merge example_constants example_domain_b (Some example_domain_a) False = Inr example_merged_ba
   \<and> intent_properties example_merged_ab \<noteq> intent_properties example_merged_ba
   \<and> set (user_actions example_merged_ab) = set (user_actions example_merged_ba)
   \<and> set (action_names example_merged_ab) = set (action_names example_merged_ba)
   \<and> set (entities example_merged_ab) = set (entities example_merged_ba)
   \<and> set (form_names example_merged_ab) = set (form_names example_merged_ba)"
proof -
  have "intent_properties example_merged_ab \<noteq> intent_properties example_merged_ba"
    by (simp add: example_merged_ab_def example_merged_ba_def)
  with merge_order_independent [OF ex_merge_ab ex_merge_ba] ex_merge_ab ex_merge_ba
  show ?thesis by blast
qed

end
